theory Spec2Isabelle
  imports Complex_Main "HOL-Library.AList"
begin

section \<open>Numbers, arrays and errors\<close>

text \<open>
  The modeler works on numpy arrays of floats. The embedding takes the numbers as
  \<^typ>\<open>real\<close>: all arithmetic is exact, and a numpy result that is not a finite
  number (\<open>inf\<close> or \<open>nan\<close>, which numpy produces with a RuntimeWarning where a
  division by zero or a mean of nothing is taken) is the outcome \<open>NonFinite\<close>, so that
  HOL's \<open>x / 0 = 0\<close> is never taken for a result of the program. A two-dimensional
  array is the list of its rows; a Python exception is an \<open>Inl\<close> value.
\<close>

datatype error = KeyError | IndexError | ValueError | NonFinite

type_synonym matrix = "real list list"

text \<open>A numpy array of two dimensions has rows of one length.\<close>

definition ndarray2 :: "matrix \<Rightarrow> nat \<Rightarrow> bool" where
  "ndarray2 data n = list_all (\<lambda>r. length r = n) data"

text \<open>Python's \<open>xs[i]\<close>: a negative index counts from the end.\<close>

definition getitem :: "'a list \<Rightarrow> int \<Rightarrow> error + 'a" where
  "getitem xs i =
     (if 0 \<le> i \<and> i < int (length xs) then Inr (xs ! nat i)
      else if i < 0 \<and> - int (length xs) \<le> i then Inr (xs ! nat (int (length xs) + i))
      else Inl IndexError)"

text \<open>\<open>np.mean(data, axis=0)\<close>: one mean per column; without rows the result is \<open>nan\<close>.\<close>

definition column :: "matrix \<Rightarrow> nat \<Rightarrow> real list" where
  "column data j = map (\<lambda>r. r ! j) data"

definition mean_axis0 :: "matrix \<Rightarrow> error + real list" where
  "mean_axis0 data =
     (case data of
        [] \<Rightarrow> Inl NonFinite
      | r # _ \<Rightarrow> Inr (map (\<lambda>j. sum_list (column data j) / real (length data)) [0..<length r]))"

section \<open>Modeler: unit conversion\<close>

definition convert_to_conc :: "real \<Rightarrow> real" where
  "convert_to_conc absorption =
     (let epsilon = 24.8; d = 1 in absorption / (epsilon * d) * 1000)"

text \<open>The inverse map named by the specification, \<open>c \<cdot> \<epsilon> \<cdot> d / 1000\<close>.\<close>

definition spec_conc_to_absorption :: "real \<Rightarrow> real" where
  "spec_conc_to_absorption c = c * 24.8 * 1 / 1000"

section \<open>Modeler: initial guesses for bias and S0\<close>

definition get_initial_bias :: "matrix \<Rightarrow> error + real" where
  "get_initial_bias data =
     (case mean_axis0 data of Inl e \<Rightarrow> Inl e | Inr m \<Rightarrow> getitem m (- 1))"

definition get_initial_S0 :: "matrix \<Rightarrow> error + real" where
  "get_initial_S0 data =
     (case mean_axis0 data of Inl e \<Rightarrow> Inl e | Inr m \<Rightarrow> getitem m 0)"

text \<open>The specification's column mean: the sum of column \<open>j\<close> over the number of replicates.\<close>

definition spec_col_mean :: "matrix \<Rightarrow> nat \<Rightarrow> real" where
  "spec_col_mean data j = (\<Sum>i\<leftarrow>[0..<length data]. data ! i ! j) / real (length data)"

definition example_t :: "real list" where
  "example_t = [0, 1, 2, 3]"

definition example_data :: matrix where
  "example_data = [[0, 1, 2, 2], [0, 1.2, 1.8, 2.1]]"

section \<open>Modeler: the gradient curve\<close>

text \<open>\<open>data.shape[1]\<close>, read inside the loop over the rows only.\<close>

definition ncols :: "matrix \<Rightarrow> nat" where
  "ncols data = (case data of [] \<Rightarrow> 0 | r # _ \<Rightarrow> length r)"

text \<open>
  The inner loop of \<open>_get_v\<close> over the time indices \<open>j\<close> of one replicate row. The loop
  state is \<open>prev_value\<close>, \<open>prev_time\<close> and the row of \<open>v_all\<close> being filled.
\<close>

fun get_v_row :: "real list \<Rightarrow> real list \<Rightarrow> nat list \<Rightarrow> real \<Rightarrow> real \<Rightarrow> real list
    \<Rightarrow> error + real list" where
  "get_v_row t row [] prev_value prev_time v_row = Inr v_row"
| "get_v_row t row (j # js) prev_value prev_time v_row =
     (if length t \<le> j \<or> length row \<le> j then Inl IndexError
      else if t ! j = 0 then
        get_v_row t row js (row ! j) (t ! j) (v_row[j := prev_value - row ! j])
      else if t ! j - prev_time = 0 then Inl NonFinite
      else
        get_v_row t row js (row ! j) (t ! j)
          (v_row[j := \<bar>(prev_value - row ! j) / (t ! j - prev_time)\<bar>]))"

text \<open>The outer loop over the replicate rows \<open>i\<close>; \<open>data[i,0]\<close> is the first \<open>prev_value\<close>.\<close>

fun get_v_rows :: "real list \<Rightarrow> matrix \<Rightarrow> matrix \<Rightarrow> nat list \<Rightarrow> error + matrix" where
  "get_v_rows t data v_all [] = Inr v_all"
| "get_v_rows t data v_all (i # is) =
     (case getitem (data ! i) 0 of
        Inl e \<Rightarrow> Inl e
      | Inr prev_value \<Rightarrow>
          (case get_v_row t (data ! i) [0..<ncols data] prev_value 0 (v_all ! i) of
             Inl e \<Rightarrow> Inl e
           | Inr v_row \<Rightarrow> get_v_rows t data (v_all[i := v_row]) is))"

definition get_v :: "real list \<Rightarrow> matrix \<Rightarrow> error + real list" where
  "get_v t data =
     (case get_v_rows t data (map (map (\<lambda>x. 0 * x)) data) [0..<length data] of
        Inl e \<Rightarrow> Inl e
      | Inr v_all \<Rightarrow> mean_axis0 v_all)"

text \<open>\<open>np.max\<close> of a one-dimensional array; it raises ValueError on an empty one.\<close>

definition np_max :: "real list \<Rightarrow> error + real" where
  "np_max v = (case v of [] \<Rightarrow> Inl ValueError | x # xs \<Rightarrow> Inr (fold max xs x))"

definition get_initial_vmax :: "real list \<Rightarrow> matrix \<Rightarrow> error + real" where
  "get_initial_vmax t data = (case get_v t data of Inl e \<Rightarrow> Inl e | Inr v \<Rightarrow> np_max v)"

text \<open>
  The specification's gradient: the entry of row \<open>i\<close> at \<open>j\<close> from the previous value and
  time (at \<open>j = 0\<close> the sentinels \<open>data[i][0]\<close> and \<open>0\<close>), then the mean over the rows.
\<close>

definition spec_delta :: "real list \<Rightarrow> real list \<Rightarrow> nat \<Rightarrow> real" where
  "spec_delta t row j =
     (let prev_value = (if j = 0 then row ! 0 else row ! (j - 1));
          prev_time = (if j = 0 then 0 else t ! (j - 1))
      in if t ! j = 0 then prev_value - row ! j
         else \<bar>(prev_value - row ! j) / (t ! j - prev_time)\<bar>)"

definition spec_gradient :: "real list \<Rightarrow> matrix \<Rightarrow> real list" where
  "spec_gradient t data =
     map (\<lambda>j. (\<Sum>i\<leftarrow>[0..<length data]. spec_delta t (data ! i) j) / real (length data))
       [0..<length t]"

text \<open>A time series is non-negative and strictly increasing.\<close>

definition time_series :: "real list \<Rightarrow> bool" where
  "time_series t = (list_all (\<lambda>x. 0 \<le> x) t \<and> sorted_wrt (<) t)"

section \<open>Modeler: initial guess for Km\<close>

text \<open>\<open>np.where(v == x)[0]\<close>: the indices at which \<open>v\<close> equals \<open>x\<close>, in increasing order.\<close>

definition where_eq :: "real list \<Rightarrow> real \<Rightarrow> nat list" where
  "where_eq v x = filter (\<lambda>i. v ! i = x) [0..<length v]"

text \<open>
  \<open>argmin\<close> of a one-dimensional array: the first index of the least value, found by one
  scan that keeps the best index and value so far; ValueError on an empty array.
\<close>

fun argmin_scan :: "real list \<Rightarrow> nat \<Rightarrow> nat \<Rightarrow> real \<Rightarrow> nat" where
  "argmin_scan [] i best least = best"
| "argmin_scan (x # xs) i best least =
     (if x < least then argmin_scan xs (Suc i) i x else argmin_scan xs (Suc i) best least)"

definition argmin :: "real list \<Rightarrow> error + nat" where
  "argmin xs = (case xs of [] \<Rightarrow> Inl ValueError | x # rest \<Rightarrow> Inr (argmin_scan rest 1 0 x))"

text \<open>
  \<open>get_initial_Km\<close>. The source evaluates \<open>np.max(v)\<close> twice, to one value, here
  \<open>vmax\<close>; \<open>np.where(v == vmax)[0][0]\<close> is the first index of the maximum.
\<close>

definition get_initial_Km :: "real list \<Rightarrow> matrix \<Rightarrow> error + real" where
  "get_initial_Km t data =
     (case get_v t data of Inl e \<Rightarrow> Inl e | Inr v \<Rightarrow>
      case np_max v of Inl e \<Rightarrow> Inl e | Inr vmax \<Rightarrow>
      case getitem (where_eq v vmax) 0 of Inl e \<Rightarrow> Inl e | Inr idx_max \<Rightarrow>
      case argmin (map (\<lambda>x. \<bar>x - vmax / 2\<bar>) (drop idx_max v)) of Inl e \<Rightarrow> Inl e | Inr idx_Km \<Rightarrow>
      case mean_axis0 data of Inl e \<Rightarrow> Inl e | Inr m \<Rightarrow>
      case getitem m (int (idx_max + idx_Km)) of Inl e \<Rightarrow> Inl e | Inr km \<Rightarrow>
      case get_initial_bias data of Inl e \<Rightarrow> Inl e | Inr bias \<Rightarrow>
        Inr (if km > bias then km - bias else km))"

section \<open>Modeler: residuals\<close>

text \<open>
  An lmfit \<open>Parameters\<close> object maps a name to a parameter, whose \<open>value\<close> the
  modeler reads; a missing name raises KeyError.
\<close>

record parameter =
  pvalue :: real
  vary :: bool

type_synonym parameters = "string \<rightharpoonup> parameter"

definition lookup_value :: "parameters \<Rightarrow> string \<Rightarrow> error + real" where
  "lookup_value params k = (case params k of None \<Rightarrow> Inl KeyError | Some p \<Rightarrow> Inr (pvalue p))"

text \<open>The initial state \<open>w0\<close>: the pair \<open>(v0, S0)\<close> or \<open>S0\<close> alone.\<close>

datatype init_state = Pair real real | Scalar real

text \<open>
  \<open>odeint\<close> is scipy's integrator, which is not part of the repository; the model takes it
  as a parameter: from the right-hand side, the initial state, the time points and the
  arguments it returns the state matrix, one row per time point.
\<close>

type_synonym 'f odeint = "'f \<Rightarrow> init_state \<Rightarrow> real list \<Rightarrow> parameters \<Rightarrow> matrix"

definition solveODE :: "'f odeint \<Rightarrow> 'f \<Rightarrow> real list \<Rightarrow> init_state \<Rightarrow> parameters \<Rightarrow> matrix" where
  "solveODE odeint f t w0 params = odeint f w0 t params"

text \<open>
  Both residual functions start with the same \<open>try\<close>: the pair is taken when both
  look-ups succeed; a KeyError from either sends control to the handler, which looks
  \<open>S0\<close> up again, outside any \<open>try\<close>.
\<close>

definition initial_state :: "parameters \<Rightarrow> error + init_state \<times> nat" where
  "initial_state params =
     (case (case lookup_value params ''v0'' of
              Inl e \<Rightarrow> Inl e
            | Inr v0 \<Rightarrow>
                (case lookup_value params ''S0'' of
                   Inl e \<Rightarrow> Inl e
                 | Inr s0 \<Rightarrow> Inr (Pair v0 s0, 1::nat))) of
        Inl KeyError \<Rightarrow>
          (case lookup_value params ''S0'' of Inl e \<Rightarrow> Inl e | Inr s0 \<Rightarrow> Inr (Scalar s0, 0))
      | Inl e \<Rightarrow> Inl e
      | Inr r \<Rightarrow> Inr r)"

text \<open>\<open>model[:,nW]\<close>: column \<open>nW\<close> of the state matrix, IndexError if there is none.\<close>

definition slice_column :: "matrix \<Rightarrow> nat \<Rightarrow> error + real list" where
  "slice_column model nW =
     (if list_all (\<lambda>r. nW < length r) model then Inr (column model nW) else Inl IndexError)"

text \<open>
  \<open>residual[i,:] = data[i,:] - s\<close>: numpy subtracts element by element, stretches a curve
  of length one over the row, and raises ValueError when the shapes do not fit the row.
\<close>

definition row_minus :: "real list \<Rightarrow> real list \<Rightarrow> error + real list" where
  "row_minus row s =
     (if length s = length row then Inr (map2 (-) row s)
      else if length s = 1 then Inr (map (\<lambda>x. x - s ! 0) row)
      else Inl ValueError)"

text \<open>
  The loop of \<open>_residual\<close> over the replicate rows; the ODE is solved in every pass.
  The array \<open>residual\<close> of the source is \<open>res\<close> here.
\<close>

fun residual_loop :: "'f odeint \<Rightarrow> parameters \<Rightarrow> real list \<Rightarrow> matrix \<Rightarrow> 'f \<Rightarrow> init_state \<Rightarrow> nat
    \<Rightarrow> matrix \<Rightarrow> nat list \<Rightarrow> error + matrix" where
  "residual_loop odeint params t data f w0 nW res [] = Inr res"
| "residual_loop odeint params t data f w0 nW res (i # is) =
     (let model = solveODE odeint f t w0 params in
      case slice_column model nW of
        Inl e \<Rightarrow> Inl e
      | Inr s_model \<Rightarrow>
          (case row_minus (data ! i) s_model of
             Inl e \<Rightarrow> Inl e
           | Inr row \<Rightarrow> residual_loop odeint params t data f w0 nW (res[i := row]) is))"

definition residual :: "'f odeint \<Rightarrow> parameters \<Rightarrow> real list \<Rightarrow> matrix \<Rightarrow> 'f \<Rightarrow> error + real list" where
  "residual odeint params t data f =
     (case initial_state params of
        Inl e \<Rightarrow> Inl e
      | Inr (w0, nW) \<Rightarrow>
          (case residual_loop odeint params t data f w0 nW (map (map (\<lambda>x. 0 * x)) data)
                  [0..<length data] of
             Inl e \<Rightarrow> Inl e
           | Inr res \<Rightarrow> Inr (concat res)))"

text \<open>The loop of \<open>_residual_with_bias\<close>: the bias is looked up and added in every pass.\<close>

fun residual_with_bias_loop :: "'f odeint \<Rightarrow> parameters \<Rightarrow> real list \<Rightarrow> matrix \<Rightarrow> 'f
    \<Rightarrow> init_state \<Rightarrow> nat \<Rightarrow> matrix \<Rightarrow> nat list \<Rightarrow> error + matrix" where
  "residual_with_bias_loop odeint params t data f w0 nW res [] = Inr res"
| "residual_with_bias_loop odeint params t data f w0 nW res (i # is) =
     (let model = solveODE odeint f t w0 params in
      case slice_column model nW of
        Inl e \<Rightarrow> Inl e
      | Inr s_model \<Rightarrow>
          (case lookup_value params ''bias'' of
             Inl e \<Rightarrow> Inl e
           | Inr bias \<Rightarrow>
               (let s_model_bias = map (\<lambda>x. x + bias) s_model in
                case row_minus (data ! i) s_model_bias of
                  Inl e \<Rightarrow> Inl e
                | Inr row \<Rightarrow>
                    residual_with_bias_loop odeint params t data f w0 nW (res[i := row]) is)))"

definition residual_with_bias :: "'f odeint \<Rightarrow> parameters \<Rightarrow> real list \<Rightarrow> matrix \<Rightarrow> 'f
    \<Rightarrow> error + real list" where
  "residual_with_bias odeint params t data f =
     (case initial_state params of
        Inl e \<Rightarrow> Inl e
      | Inr (w0, nW) \<Rightarrow>
          (case residual_with_bias_loop odeint params t data f w0 nW (map (map (\<lambda>x. 0 * x)) data)
                  [0..<length data] of
             Inl e \<Rightarrow> Inl e
           | Inr res \<Rightarrow> Inr (concat res)))"

text \<open>
  The specification's residual: the initial state and the index of \<open>S\<close> from the
  presence of \<open>v0\<close>, and the row-major flattening of an array of \<open>m\<close> rows and
  \<open>n\<close> columns given by its entries.
\<close>

definition spec_S_index :: "parameters \<Rightarrow> nat" where
  "spec_S_index params = (if params ''v0'' = None then 0 else 1)"

definition spec_w0 :: "parameters \<Rightarrow> init_state" where
  "spec_w0 params =
     (case params ''v0'' of
        None \<Rightarrow> Scalar (pvalue (the (params ''S0'')))
      | Some v \<Rightarrow> Pair (pvalue v) (pvalue (the (params ''S0''))))"

definition spec_flatten :: "nat \<Rightarrow> nat \<Rightarrow> (nat \<Rightarrow> nat \<Rightarrow> real) \<Rightarrow> real list" where
  "spec_flatten m n entry = concat (map (\<lambda>i. map (\<lambda>j. entry i j) [0..<n]) [0..<m])"

text \<open>What the residual functions need of the integrator: one state per time point.\<close>

definition state_matrix :: "matrix \<Rightarrow> real list \<Rightarrow> init_state \<Rightarrow> bool" where
  "state_matrix model t w0 =
     (length model = length t \<and>
      list_all (\<lambda>r. length r = (case w0 of Pair v s \<Rightarrow> 2 | Scalar s \<Rightarrow> 1)) model)"

text \<open>
  The specification's optimisation: the model curve is computed once and subtracted from
  every replicate row.
\<close>

fun collect :: "(error + 'a) list \<Rightarrow> error + 'a list" where
  "collect [] = Inr []"
| "collect (Inl e # rs) = Inl e"
| "collect (Inr x # rs) = (case collect rs of Inl e \<Rightarrow> Inl e | Inr xs \<Rightarrow> Inr (x # xs))"

definition spec_residual_once :: "'f odeint \<Rightarrow> parameters \<Rightarrow> real list \<Rightarrow> matrix \<Rightarrow> 'f
    \<Rightarrow> error + real list" where
  "spec_residual_once odeint params t data f =
     (case initial_state params of
        Inl e \<Rightarrow> Inl e
      | Inr (w0, nW) \<Rightarrow>
          (case slice_column (solveODE odeint f t w0 params) nW of
             Inl e \<Rightarrow> Inl e
           | Inr s_model \<Rightarrow>
               (case collect (map (\<lambda>row. row_minus row s_model) data) of
                  Inl e \<Rightarrow> Inl e
                | Inr res \<Rightarrow> Inr (concat res))))"

definition spec_residual_with_bias_once :: "'f odeint \<Rightarrow> parameters \<Rightarrow> real list \<Rightarrow> matrix \<Rightarrow> 'f
    \<Rightarrow> error + real list" where
  "spec_residual_with_bias_once odeint params t data f =
     (case initial_state params of
        Inl e \<Rightarrow> Inl e
      | Inr (w0, nW) \<Rightarrow>
          (case slice_column (solveODE odeint f t w0 params) nW of
             Inl e \<Rightarrow> Inl e
           | Inr s_model \<Rightarrow>
               (case lookup_value params ''bias'' of
                  Inl e \<Rightarrow> Inl e
                | Inr bias \<Rightarrow>
                    (case collect (map (\<lambda>row. row_minus row (map (\<lambda>x. x + bias) s_model)) data) of
                       Inl e \<Rightarrow> Inl e
                     | Inr res \<Rightarrow> Inr (concat res)))))"

text \<open>
  An integrator for the examples: the exact solution of \<open>w' = c\<close> for a constant \<open>c\<close>,
  every component of the state growing by \<open>c\<close> per unit of time from the first time point.
\<close>

definition odeint_const :: "real odeint" where
  "odeint_const c w0 t params =
     map (\<lambda>x. (case w0 of
                 Pair v s \<Rightarrow> [v + c * (x - t ! 0), s + c * (x - t ! 0)]
               | Scalar s \<Rightarrow> [s + c * (x - t ! 0)])) t"

definition example_params :: parameters where
  "example_params =
     [''S0'' \<mapsto> \<lparr>pvalue = 0, vary = True\<rparr>, ''bias'' \<mapsto> \<lparr>pvalue = 0.05, vary = True\<rparr>]"

definition example_params_v0 :: parameters where
  "example_params_v0 = example_params(''v0'' \<mapsto> \<lparr>pvalue = 1, vary = True\<rparr>)"

section \<open>Modeler: fit orchestration\<close>

text \<open>
  \<open>minimize\<close> is lmfit's least-squares driver, which is not part of the repository; the
  model takes it as a parameter. It is handed the residual function, the parameters and
  the arguments \<open>(t, data, ode)\<close>, and returns its result or leaves with an exception.
  Next to that result the model returns the residual functions handed to \<open>minimize\<close>
  in the course of one call, in order: the \<open>try\<close> of \<open>fit_model\<close> encloses the look-up
  of \<open>bias\<close> and the first call of \<open>minimize\<close>, and its handler calls \<open>minimize\<close> with
  the plain residual function.
\<close>

datatype residual_fn = Residual_with_bias | Residual

type_synonym ('f, 'r) minimize =
  "(parameters \<Rightarrow> real list \<Rightarrow> matrix \<Rightarrow> 'f \<Rightarrow> error + real list)
     \<Rightarrow> parameters \<Rightarrow> real list \<Rightarrow> matrix \<Rightarrow> 'f \<Rightarrow> error + 'r"

definition fit_model :: "'f odeint \<Rightarrow> ('f, 'r) minimize \<Rightarrow> real list \<Rightarrow> matrix \<Rightarrow> parameters \<Rightarrow> 'f
    \<Rightarrow> residual_fn list \<times> (error + 'r)" where
  "fit_model odeint minimize t data params ode =
     (case lookup_value params ''bias'' of
        Inl KeyError \<Rightarrow> ([Residual], minimize (residual odeint) params t data ode)
      | Inl e \<Rightarrow> ([], Inl e)
      | Inr b \<Rightarrow>
          (case minimize (residual_with_bias odeint) params t data ode of
             Inl KeyError \<Rightarrow>
               ([Residual_with_bias, Residual], minimize (residual odeint) params t data ode)
           | Inl e \<Rightarrow> ([Residual_with_bias], Inl e)
           | Inr result \<Rightarrow> ([Residual_with_bias], Inr result)))"

text \<open>
  A least-squares driver starts by evaluating the residual function at the initial
  parameters, and an exception raised there leaves \<open>minimize\<close>. For the examples,
  \<open>minimize_start\<close> is a driver that stops after this first evaluation.
\<close>

definition minimize_start :: "('f, real list) minimize" where
  "minimize_start fcn params t data f = fcn params t data f"

definition bias_only_params :: parameters where
  "bias_only_params = [''bias'' \<mapsto> \<lparr>pvalue = 0.05, vary = True\<rparr>]"

section \<open>Modeler: the table of fitted parameters\<close>

text \<open>
  A cell of the table is the marker \<open>'-'\<close> or a rounded number. (\<open>np.array\<close> stores a
  column that holds a marker as the printed forms of its cells; the model keeps the cells.)
\<close>

datatype cell = Dash | Num real

text \<open>\<open>round(value, n)\<close>: the nearest multiple of \<open>10^-n\<close>, a tie going to the even one.\<close>

definition py_round :: "real \<Rightarrow> nat \<Rightarrow> real" where
  "py_round x n =
     (let y = x * 10 ^ n; fl = \<lfloor>y\<rfloor>; d = y - of_int fl
      in (if d < 1 / 2 then of_int fl
          else if 1 / 2 < d then of_int (fl + 1)
          else if even fl then of_int fl else of_int (fl + 1)) / 10 ^ n)"

text \<open>A fit result of lmfit carries the fitted parameters and solver diagnostics.\<close>

record minimizer_result =
  result_params :: parameters
  success :: bool

definition valuesdict :: "parameters \<Rightarrow> string \<rightharpoonup> real" where
  "valuesdict params = (\<lambda>k. map_option pvalue (params k))"

text \<open>The inner loop of \<open>get_table_data\<close> over the row keys, appending to \<open>inner_array\<close>.\<close>

fun table_inner :: "minimizer_result \<Rightarrow> string list \<Rightarrow> cell list \<Rightarrow> cell list" where
  "table_inner item [] inner_array = inner_array"
| "table_inner item (key # keys) inner_array =
     (case valuesdict (result_params item) key of
        None \<Rightarrow> table_inner item keys (inner_array @ [Dash])
      | Some v \<Rightarrow>
          (let v' = (if \<not> (key = ''vmax'' \<or> key = ''a'') then convert_to_conc v else v)
           in table_inner item keys (inner_array @ [Num (py_round v' 3)])))"

text \<open>The outer loop over \<open>results.items()\<close>, appending to \<open>columns\<close> and \<open>table\<close>.\<close>

fun table_outer :: "(string \<times> minimizer_result) list \<Rightarrow> string list \<Rightarrow> string list \<Rightarrow> cell list list
    \<Rightarrow> string list \<times> cell list list" where
  "table_outer [] rows columns table = (columns, table)"
| "table_outer ((key, item) # rest) rows columns table =
     table_outer rest rows (columns @ [key]) (table @ [table_inner item rows []])"

text \<open>\<open>np.transpose(np.array(table))\<close>; an empty table stays empty.\<close>

definition np_transpose :: "'a list list \<Rightarrow> 'a list list" where
  "np_transpose table =
     (case table of [] \<Rightarrow> [] | r # _ \<Rightarrow> map (\<lambda>j. map (\<lambda>row. row ! j) table) [0..<length r])"

definition get_table_data :: "(string \<times> minimizer_result) list
    \<Rightarrow> cell list list \<times> string list \<times> string list" where
  "get_table_data results =
     (let rows = [''S0'', ''bias'', ''vmax'', ''Km'', ''a''];
          (columns, table) = table_outer results rows [] [];
          table_data = np_transpose table;
          rows = [''S0 [mmol/L]'', ''bias [mmol/L]'', ''vmax [M/min]'', ''Km [mmol/L]'',
                  ''a [1/min]'']
      in (table_data, columns, rows))"

text \<open>The specification's cell for a row key and a fit result, and its row set.\<close>

definition spec_cell :: "string \<Rightarrow> minimizer_result \<Rightarrow> cell" where
  "spec_cell key item =
     (case result_params item key of
        None \<Rightarrow> Dash
      | Some p \<Rightarrow>
          Num (py_round (if key = ''vmax'' \<or> key = ''a'' then pvalue p
                         else convert_to_conc (pvalue p)) 3))"

definition spec_row_set :: "string list" where
  "spec_row_set = [''S0'', ''bias'', ''vmax'', ''Km'', ''a'']"

definition example_result :: minimizer_result where
  "example_result =
     \<lparr>result_params = [''S0'' \<mapsto> \<lparr>pvalue = 1.0, vary = True\<rparr>,
                        ''vmax'' \<mapsto> \<lparr>pvalue = 5.0, vary = True\<rparr>],
      success = True\<rparr>"

section \<open>Document accessor\<close>

text \<open>
  The parsed JSON of an EnzymeML document: proteins and reactants with an id and a name,
  and reactions whose educts, products and modifiers each name a species and carry its
  replicates, a replicate being a time vector and a data vector.
\<close>

record replicate =
  rep_time :: "real list"
  rep_data :: "real list"

record participant =
  p_species :: string
  p_replicates :: "replicate list"

record reaction =
  reaction_id :: string
  reaction_name :: string
  educts :: "participant list"
  products :: "participant list"
  modifiers :: "participant list"

record document =
  doc_name :: string
  doc_protein :: "(string \<times> string) list"
  doc_reactant :: "(string \<times> string) list"
  doc_reaction :: "reaction list"

text \<open>
  The keys \<open>'educts'\<close>, \<open>'products'\<close> and \<open>'modifiers'\<close> under which \<open>typeDic\<close>
  files a species, and the entry of a reaction under such a key.
\<close>

datatype role = Educts | Products | Modifiers

fun participants :: "reaction \<Rightarrow> role \<Rightarrow> participant list" where
  "participants r Educts = educts r"
| "participants r Products = products r"
| "participants r Modifiers = modifiers r"

text \<open>
  The four dictionaries are attributes of the class \<open>EnzymeMLDocJSON\<close>, shared by all
  its objects; they are empty when the module is loaded. \<open>__str__\<close> walks \<open>reactionDic\<close>
  in the order of its items, so this one is an association list, updated as a Python
  dictionary is: a known key keeps its place.
\<close>

record registry =
  protDic :: "string \<rightharpoonup> string"
  reactantDic :: "string \<rightharpoonup> string"
  reactionDic :: "(string \<times> reaction) list"
  typeDic :: "string \<rightharpoonup> role"

definition empty_registry :: registry where
  "empty_registry =
     \<lparr>protDic = Map.empty, reactantDic = Map.empty, reactionDic = [], typeDic = Map.empty\<rparr>"

fun setProteinDic :: "(string \<times> string) list \<Rightarrow> (string \<rightharpoonup> string) \<Rightarrow> (string \<rightharpoonup> string)" where
  "setProteinDic [] dic = dic"
| "setProteinDic (p # ps) dic = setProteinDic ps (dic(fst p \<mapsto> snd p))"

fun setReactantDic :: "(string \<times> string) list \<Rightarrow> (string \<rightharpoonup> string) \<Rightarrow> (string \<rightharpoonup> string)" where
  "setReactantDic [] dic = dic"
| "setReactantDic (r # rs) dic = setReactantDic rs (dic(fst r \<mapsto> snd r))"

fun setReactionDic :: "reaction list \<Rightarrow> (string \<times> reaction) list \<Rightarrow> (string \<times> reaction) list" where
  "setReactionDic [] dic = dic"
| "setReactionDic (r # rs) dic = setReactionDic rs (AList.update (reaction_id r) r dic)"

text \<open>
  What \<open>__str__\<close> does to \<open>typeDic\<close>. The loops over the educts and over the products
  of a reaction look every species up in \<open>reactantDic\<close>, which raises KeyError for an
  unknown one, and file it under the key of the loop.
\<close>

fun str_listed :: "(string \<rightharpoonup> string) \<Rightarrow> role \<Rightarrow> participant list \<Rightarrow> (string \<rightharpoonup> role)
    \<Rightarrow> error + (string \<rightharpoonup> role)" where
  "str_listed rd key [] ty = Inr ty"
| "str_listed rd key (p # ps) ty =
     (case rd (p_species p) of
        None \<Rightarrow> Inl KeyError
      | Some name \<Rightarrow> str_listed rd key ps (ty(p_species p \<mapsto> key)))"

text \<open>The loop over the modifiers: each of its two look-ups has a \<open>try\<close> of its own.\<close>

fun str_modifiers :: "(string \<rightharpoonup> string) \<Rightarrow> (string \<rightharpoonup> string) \<Rightarrow> participant list
    \<Rightarrow> (string \<rightharpoonup> role) \<Rightarrow> (string \<rightharpoonup> role)" where
  "str_modifiers rd pd [] ty = ty"
| "str_modifiers rd pd (m # ms) ty =
     (let ty1 = (case rd (p_species m) of None \<Rightarrow> ty | Some name \<Rightarrow> ty(p_species m \<mapsto> Modifiers));
          ty2 = (case pd (p_species m) of None \<Rightarrow> ty1 | Some name \<Rightarrow> ty1(p_species m \<mapsto> Modifiers))
      in str_modifiers rd pd ms ty2)"

fun str_reactions :: "(string \<rightharpoonup> string) \<Rightarrow> (string \<rightharpoonup> string) \<Rightarrow> (string \<times> reaction) list
    \<Rightarrow> (string \<rightharpoonup> role) \<Rightarrow> error + (string \<rightharpoonup> role)" where
  "str_reactions rd pd [] ty = Inr ty"
| "str_reactions rd pd (item # items) ty =
     (case str_listed rd Educts (educts (snd item)) ty of
        Inl e \<Rightarrow> Inl e
      | Inr ty1 \<Rightarrow>
          (case str_listed rd Products (products (snd item)) ty1 of
             Inl e \<Rightarrow> Inl e
           | Inr ty2 \<Rightarrow> str_reactions rd pd items (str_modifiers rd pd (modifiers (snd item)) ty2)))"

text \<open>\<open>__init__\<close>: the three dictionaries are filled, then \<open>__str__\<close> runs.\<close>

definition init :: "registry \<Rightarrow> document \<Rightarrow> error + registry" where
  "init reg doc =
     (let pd = setProteinDic (doc_protein doc) (protDic reg);
          rd = setReactantDic (doc_reactant doc) (reactantDic reg);
          rs = setReactionDic (doc_reaction doc) (reactionDic reg)
      in case str_reactions rd pd rs (typeDic reg) of
           Inl e \<Rightarrow> Inl e
         | Inr ty \<Rightarrow> Inr \<lparr>protDic = pd, reactantDic = rd, reactionDic = rs, typeDic = ty\<rparr>)"

text \<open>
  \<open>np.array\<close> of a list of rows: rows of unequal length raise ValueError (numpy from
  version 1.24 on). The time list is one row of numbers, which always converts.
\<close>

definition np_array2 :: "matrix \<Rightarrow> error + matrix" where
  "np_array2 data =
     (case data of
        [] \<Rightarrow> Inr []
      | r # rs \<Rightarrow> if list_all (\<lambda>x. length x = length r) rs then Inr data else Inl ValueError)"

text \<open>
  \<open>getData\<close>: the two loops keep the time vector of the last replicate met and append
  every data vector; the two lists are then converted to numpy arrays.
\<close>

fun getData_replicates :: "replicate list \<Rightarrow> real list \<times> matrix \<Rightarrow> real list \<times> matrix" where
  "getData_replicates [] (time, data) = (time, data)"
| "getData_replicates (rep # reps) (time, data) =
     getData_replicates reps (rep_time rep, data @ [rep_data rep])"

fun getData_reactants :: "participant list \<Rightarrow> string \<Rightarrow> real list \<times> matrix \<Rightarrow> real list \<times> matrix" where
  "getData_reactants [] species acc = acc"
| "getData_reactants (reactant # rest) species acc =
     (if p_species reactant = species
      then getData_reactants rest species (getData_replicates (p_replicates reactant) acc)
      else getData_reactants rest species acc)"

definition getData :: "registry \<Rightarrow> string \<Rightarrow> string \<Rightarrow> error + real list \<times> matrix" where
  "getData reg reaction species =
     (case map_of (reactionDic reg) reaction of
        None \<Rightarrow> Inl KeyError
      | Some r \<Rightarrow>
          (case typeDic reg species of
             None \<Rightarrow> Inl KeyError
           | Some key \<Rightarrow>
               (case getData_reactants (participants r key) species ([], []) of
                  (time, data) \<Rightarrow>
                    (case np_array2 data of Inl e \<Rightarrow> Inl e | Inr arr \<Rightarrow> Inr (time, arr)))))"

text \<open>A document is loaded into the freshly imported class and queried.\<close>

definition fresh_getData :: "document \<Rightarrow> string \<Rightarrow> string \<Rightarrow> error + real list \<times> matrix" where
  "fresh_getData doc reaction species =
     (case init empty_registry doc of
        Inl e \<Rightarrow> Inl e
      | Inr reg \<Rightarrow> getData reg reaction species)"

text \<open>
  The specification's reaction/species pair: the document has a reaction of that id in
  which the species takes part; and a species that takes part in some reaction.
\<close>

definition takes_part :: "reaction \<Rightarrow> string \<Rightarrow> bool" where
  "takes_part r species =
     list_ex (\<lambda>p. p_species p = species) (educts r @ products r @ modifiers r)"

definition spec_pair_present :: "document \<Rightarrow> string \<Rightarrow> string \<Rightarrow> bool" where
  "spec_pair_present doc reaction species =
     list_ex (\<lambda>r. reaction_id r = reaction \<and> takes_part r species) (doc_reaction doc)"

definition spec_species_present :: "document \<Rightarrow> string \<Rightarrow> bool" where
  "spec_species_present doc species = list_ex (\<lambda>r. takes_part r species) (doc_reaction doc)"

text \<open>An example document with two reactions, each with one educt and one product.\<close>

definition example_r0 :: reaction where
  "example_r0 =
     \<lparr>reaction_id = ''r0'', reaction_name = ''first'',
      educts = [\<lparr>p_species = ''s0'',
                 p_replicates = [\<lparr>rep_time = [0, 1, 2, 3], rep_data = [0, 1, 2, 2]\<rparr>,
                                 \<lparr>rep_time = [0, 1, 2, 3], rep_data = [0, 1.2, 1.8, 2.1]\<rparr>]\<rparr>],
      products = [\<lparr>p_species = ''s1'', p_replicates = []\<rparr>],
      modifiers = []\<rparr>"

definition example_r1 :: reaction where
  "example_r1 =
     \<lparr>reaction_id = ''r1'', reaction_name = ''second'',
      educts = [\<lparr>p_species = ''s2'',
                 p_replicates = [\<lparr>rep_time = [0, 1], rep_data = [3, 4]\<rparr>]\<rparr>],
      products = [\<lparr>p_species = ''s3'', p_replicates = []\<rparr>],
      modifiers = []\<rparr>"

definition example_doc :: document where
  "example_doc =
     \<lparr>doc_name = ''example'', doc_protein = [(''p0'', ''enzyme'')],
      doc_reactant = [(''s0'', ''A''), (''s1'', ''B''), (''s2'', ''C''), (''s3'', ''D'')],
      doc_reaction = [example_r0, example_r1]\<rparr>"

section \<open>Properties\<close>

lemma sum_list_column: "sum_list (column data j) = (\<Sum>i\<leftarrow>[0..<length data]. data ! i ! j)"
proof -
  have "column data j = map (\<lambda>i. data ! i ! j) [0..<length data]"
    unfolding column_def by (rule nth_equalityI) simp_all
  then show ?thesis by simp
qed

lemma mean_axis0_Cons:
  "data \<noteq> [] \<Longrightarrow> ndarray2 data n \<Longrightarrow>
     mean_axis0 data = Inr (map (spec_col_mean data) [0..<n])"
  by (cases data) (simp_all add: mean_axis0_def ndarray2_def spec_col_mean_def sum_list_column)

lemma get_initial_S0_col_mean:
  assumes "data \<noteq> []" and "ndarray2 data n" and "0 < n"
  shows "get_initial_S0 data = Inr (spec_col_mean data 0)"
  using assms(3) by (simp add: get_initial_S0_def mean_axis0_Cons [OF assms(1,2)] getitem_def)

lemma get_initial_bias_col_mean:
  assumes "data \<noteq> []" and "ndarray2 data n" and "0 < n"
  shows "get_initial_bias data = Inr (spec_col_mean data (n - 1))"
proof -
  have "nat (int n - 1) = n - 1" by simp
  then show ?thesis
    using assms(3) by (simp add: get_initial_bias_def mean_axis0_Cons [OF assms(1,2)] getitem_def)
qed

text \<open>
  C8: \<open>convert_to_conc\<close> is the fixed linear map \<open>value / (24.8 \<cdot> 1) \<times> 1000\<close> of its one
  argument, and it inverts \<open>c \<cdot> \<epsilon> \<cdot> d / 1000\<close> exactly over exact arithmetic.
\<close>

theorem convert_to_conc_inverts:
  "convert_to_conc a = a / (24.8 * 1) * 1000 \<and>
   convert_to_conc (c * 24.8 * 1 / 1000) = c \<and>
   convert_to_conc (spec_conc_to_absorption c) = c"
  by (simp add: convert_to_conc_def spec_conc_to_absorption_def)

text \<open>
  C9: for a replicate matrix with at least one row and one column, \<open>get_initial_S0\<close> is
  exactly the mean of column 0 and \<open>get_initial_bias\<close> exactly the mean of the last
  column; on the example data they are 0 and 2.05.
\<close>

theorem get_initial_S0_bias_exact:
  assumes "data \<noteq> []" and "ndarray2 data n" and "0 < n"
  shows "get_initial_S0 data = Inr (spec_col_mean data 0) \<and>
         get_initial_bias data = Inr (spec_col_mean data (n - 1)) \<and>
         get_initial_S0 example_data = Inr 0 \<and>
         get_initial_bias example_data = Inr 2.05"
proof -
  have e0: "get_initial_S0 example_data = Inr 0"
    by (simp add: get_initial_S0_def example_data_def mean_axis0_def column_def getitem_def)
  have e1: "get_initial_bias example_data = Inr 2.05"
    by (simp add: get_initial_bias_def example_data_def mean_axis0_def column_def getitem_def)
  from get_initial_S0_col_mean [OF assms] get_initial_bias_col_mean [OF assms] e0 e1
  show ?thesis by simp
qed

theorem get_initial_S0_bias_exact_witness:
  "example_data \<noteq> [] \<and> ndarray2 example_data 4 \<and> (0::nat) < 4 \<and>
   get_initial_S0 example_data = Inr (spec_col_mean example_data 0) \<and>
   get_initial_bias example_data = Inr (spec_col_mean example_data 3) \<and>
   spec_col_mean example_data 0 = 0 \<and> spec_col_mean example_data 3 = 2.05"
proof -
  have h1: "example_data \<noteq> []" by (simp add: example_data_def)
  have h2: "ndarray2 example_data 4" by (simp add: example_data_def ndarray2_def)
  have h3: "(0::nat) < 4" by simp
  note th = get_initial_S0_bias_exact [OF h1 h2 h3]
  from th have a: "get_initial_S0 example_data = Inr (spec_col_mean example_data 0)"
    and c: "get_initial_S0 example_data = Inr 0" by blast+
  from th have b: "get_initial_bias example_data = Inr (spec_col_mean example_data (4 - 1))"
    and d: "get_initial_bias example_data = Inr 2.05" by blast+
  from a c have v0: "spec_col_mean example_data 0 = 0" by simp
  from b d have v3: "spec_col_mean example_data 3 = 2.05" by simp
  from a b show ?thesis using h1 h2 v0 v3 by simp
qed

subsection \<open>The gradient loops compute the specified curve\<close>

lemma time_series_step:
  assumes "time_series t" "k < length t"
  shows "t ! k \<noteq> 0 \<longrightarrow> t ! k - (if k = 0 then 0 else t ! (k - 1)) \<noteq> 0"
proof (cases k)
  case 0 then show ?thesis by simp
next
  case (Suc m)
  with assms have "t ! m < t ! k"
    by (simp add: time_series_def sorted_wrt_iff_nth_less)
  with Suc show ?thesis by simp
qed

lemma get_v_row_upt:
  assumes "time_series t" "length t = n" "length row = n" "length acc = n" "k \<le> n"
    and "pv = (if k = 0 then row ! 0 else row ! (k - 1))"
    and "pt = (if k = 0 then 0 else t ! (k - 1))"
  shows "get_v_row t row [k..<n] pv pt acc = Inr (take k acc @ map (spec_delta t row) [k..<n])"
  using assms(4-)
proof (induction "n - k" arbitrary: k pv pt acc)
  case 0
  then show ?case by simp
next
  case (Suc d)
  then have kn: "k < n" by simp
  have upt: "[k..<n] = k # [Suc k..<n]" using kn by (simp add: upt_conv_Cons)
  have nz: "t ! k \<noteq> 0 \<longrightarrow> t ! k - pt \<noteq> 0"
    using time_series_step [OF assms(1), of k] kn assms(2) Suc.prems by simp
  have d: "d = n - Suc k" using Suc.hyps by simp
  let ?acc = "acc[k := spec_delta t row k]"
  have IH: "get_v_row t row [Suc k..<n] (row ! k) (t ! k) ?acc
      = Inr (take (Suc k) ?acc @ map (spec_delta t row) [Suc k..<n])"
    using Suc.hyps(1) [OF d, of ?acc "row ! k" "t ! k"] kn Suc.prems by simp
  have tk: "take (Suc k) ?acc = take k acc @ [spec_delta t row k]"
    using kn Suc.prems by (simp add: take_Suc_conv_app_nth)
  have sd: "spec_delta t row k = (if t ! k = 0 then pv - row ! k else \<bar>(pv - row ! k) / (t ! k - pt)\<bar>)"
    using Suc.prems by (simp add: spec_delta_def)
  have step: "get_v_row t row [k..<n] pv pt acc
      = get_v_row t row [Suc k..<n] (row ! k) (t ! k) ?acc"
  proof (cases "t ! k = 0")
    case True
    then show ?thesis using kn assms(2,3) sd by (simp add: upt)
  next
    case False
    with nz have "t ! k - pt \<noteq> 0" by simp
    with False show ?thesis using kn assms(2,3) sd by (simp add: upt del: abs_divide)
  qed
  show ?case
    unfolding step IH tk by (simp add: upt)
qed

lemma get_v_row_full:
  assumes "time_series t" "length row = length t" "t \<noteq> []"
  shows "get_v_row t row [0..<length t] (row ! 0) 0 (map (\<lambda>x. 0 * x) row)
     = Inr (map (spec_delta t row) [0..<length t])"
  using get_v_row_upt [OF assms(1) refl assms(2), of "map (\<lambda>x. 0 * x) row" 0 "row ! 0" 0] assms
  by simp

lemma get_v_rows_upt:
  assumes "time_series t" "t \<noteq> []" "ndarray2 data (length t)" "length data = m"
    "length v_all = m" "k \<le> m" "\<forall>i<m. k \<le> i \<longrightarrow> v_all ! i = map (\<lambda>x. 0 * x) (data ! i)"
  shows "get_v_rows t data v_all [k..<m]
     = Inr (take k v_all @ map (\<lambda>i. map (spec_delta t (data ! i)) [0..<length t]) [k..<m])"
  using assms(5-)
proof (induction "m - k" arbitrary: k v_all)
  case 0
  then show ?case by simp
next
  case (Suc d)
  then have km: "k < m" by simp
  have upt: "[k..<m] = k # [Suc k..<m]" using km by (simp add: upt_conv_Cons)
  have rows: "\<And>i. i < m \<Longrightarrow> length (data ! i) = length t"
    using assms(3,4) by (simp add: ndarray2_def list_all_length)
  have nc: "ncols data = length t"
    using km assms(4) rows [of 0] by (cases data) (auto simp: ncols_def)
  have g0: "getitem (data ! k) 0 = Inr (data ! k ! 0)"
    using rows [OF km] assms(2) by (simp add: getitem_def)
  let ?r = "map (spec_delta t (data ! k)) [0..<length t]"
  have vk: "v_all ! k = map (\<lambda>x. 0 * x) (data ! k)" using Suc.prems km by simp
  have row: "get_v_row t (data ! k) [0..<ncols data] (data ! k ! 0) 0 (v_all ! k) = Inr ?r"
    unfolding nc vk using get_v_row_full [OF assms(1) rows [OF km] assms(2)] .
  have d: "d = m - Suc k" using Suc.hyps by simp
  have IH: "get_v_rows t data (v_all[k := ?r]) [Suc k..<m]
     = Inr (take (Suc k) (v_all[k := ?r]) @
          map (\<lambda>i. map (spec_delta t (data ! i)) [0..<length t]) [Suc k..<m])"
    using Suc.hyps(1) [OF d, of "v_all[k := ?r]"] km Suc.prems by simp
  have tk: "take (Suc k) (v_all[k := ?r]) = take k v_all @ [?r]"
    using km Suc.prems by (simp add: take_Suc_conv_app_nth)
  show ?case
    using g0 row IH tk by (simp add: upt)
qed

lemma get_v_spec_gradient:
  assumes "time_series t" "t \<noteq> []" "data \<noteq> []" "ndarray2 data (length t)"
  shows "get_v t data = Inr (spec_gradient t data)"
proof -
  let ?V = "map (\<lambda>i. map (spec_delta t (data ! i)) [0..<length t]) [0..<length data]"
  have "get_v_rows t data (map (map (\<lambda>x. 0 * x)) data) [0..<length data] = Inr ?V"
    using get_v_rows_upt [OF assms(1,2,4) refl, of "map (map (\<lambda>x. 0 * x)) data" 0] by simp
  moreover have "mean_axis0 ?V = Inr (spec_gradient t data)"
  proof -
    have ne: "?V \<noteq> []" using assms(3) by simp
    have nd: "ndarray2 ?V (length t)" by (simp add: ndarray2_def list_all_iff)
    have "(\<Sum>i\<leftarrow>[0..<length data]. ?V ! i ! j) =
        (\<Sum>i\<leftarrow>[0..<length data]. spec_delta t (data ! i) j)" if "j < length t" for j
      using that by (intro arg_cong [where f = sum_list] map_cong) simp_all
    then have "map (spec_col_mean ?V) [0..<length t] = spec_gradient t data"
      by (simp add: spec_col_mean_def spec_gradient_def)
    with mean_axis0_Cons [OF ne nd] show ?thesis by simp
  qed
  ultimately show ?thesis by (simp add: get_v_def)
qed

text \<open>
  C1: for a non-negative, strictly increasing, non-empty time vector and a replicate matrix
  with at least one row whose rows are as long as the time vector, \<open>_get_v\<close> returns the
  column-wise mean of the per-row entries of the specification (absolute rate where
  \<open>t[j]\<close> is not zero, plain difference where it is), and no division by zero is met.
\<close>

theorem get_v_is_spec_gradient:
  assumes "time_series t" and "t \<noteq> []" and "data \<noteq> []" and "ndarray2 data (length t)"
  shows "get_v t data = Inr (spec_gradient t data) \<and> get_v t data \<noteq> Inl NonFinite"
  using get_v_spec_gradient [OF assms] by simp

theorem get_v_is_spec_gradient_witness:
  "time_series example_t \<and> example_t \<noteq> [] \<and> example_data \<noteq> [] \<and>
   ndarray2 example_data (length example_t) \<and>
   get_v example_t example_data = Inr [0, 1.1, 0.8, 0.15]"
proof -
  have h1: "time_series example_t" by (simp add: time_series_def example_t_def)
  have h2: "example_t \<noteq> []" by (simp add: example_t_def)
  have h3: "example_data \<noteq> []" by (simp add: example_data_def)
  have h4: "ndarray2 example_data (length example_t)"
    by (simp add: ndarray2_def example_data_def example_t_def)
  have "spec_gradient example_t example_data = [0, 1.1, 0.8, 0.15]"
    by (simp add: spec_gradient_def spec_delta_def example_t_def example_data_def upt_rec)
  with get_v_is_spec_gradient [OF h1 h2 h3 h4] h1 h2 h3 h4 show ?thesis by simp
qed

subsection \<open>Sign of the gradient curve\<close>

lemma fold_max_ge: "(x::real) \<le> fold max xs x"
proof (induction xs arbitrary: x)
  case Nil show ?case by simp
next
  case (Cons y ys)
  have "x \<le> max y x" by simp
  also have "\<dots> \<le> fold max ys (max y x)" by (rule Cons.IH)
  finally show ?case by simp
qed

lemma spec_delta_0: "spec_delta t row 0 = 0"
  by (simp add: spec_delta_def Let_def)

lemma time_series_pos:
  assumes "time_series t" "j < length t" "0 < j"
  shows "0 < t ! j"
proof -
  have "0 < length t" using assms(2) by (cases t) simp_all
  then have "0 \<le> t ! 0" using assms(1) by (auto simp: time_series_def list_all_length)
  moreover have "t ! 0 < t ! j" using assms by (simp add: time_series_def sorted_wrt_iff_nth_less)
  ultimately show ?thesis by simp
qed

lemma spec_delta_nonneg:
  assumes "time_series t" "j < length t"
  shows "0 \<le> spec_delta t row j"
proof (cases j)
  case 0 then show ?thesis by (simp add: spec_delta_0)
next
  case (Suc k)
  with time_series_pos [OF assms] have "t ! j \<noteq> 0" by simp
  then show ?thesis by (simp add: spec_delta_def Let_def)
qed

lemma spec_gradient_nth:
  "j < length t \<Longrightarrow> spec_gradient t data ! j =
     (\<Sum>i\<leftarrow>[0..<length data]. spec_delta t (data ! i) j) / real (length data)"
  by (simp add: spec_gradient_def)

text \<open>
  C10: for a non-negative, strictly increasing time vector and a replicate matrix with at
  least one row and one column, the first entry of the gradient curve is exactly 0, every
  entry is non-negative, and \<open>get_initial_vmax\<close> returns a value that is at least 0.
\<close>

theorem gradient_first_zero_nonneg:
  assumes "time_series t" and "t \<noteq> []" and "data \<noteq> []" and "ndarray2 data (length t)"
  shows "\<exists>v m. get_v t data = Inr v \<and> length v = length t \<and> v ! 0 = 0 \<and>
           (\<forall>j<length v. 0 \<le> v ! j) \<and> get_initial_vmax t data = Inr m \<and> 0 \<le> m"
proof -
  let ?v = "spec_gradient t data"
  have gv: "get_v t data = Inr ?v" by (rule get_v_spec_gradient [OF assms])
  have len: "length ?v = length t" by (simp add: spec_gradient_def)
  have v0: "?v ! 0 = 0" using assms(2) by (simp add: spec_gradient_nth spec_delta_0)
  have nn: "0 \<le> ?v ! j" if "j < length ?v" for j
  proof -
    have j: "j < length t" using that len by simp
    have "0 \<le> (\<Sum>i\<leftarrow>[0..<length data]. spec_delta t (data ! i) j)"
      by (rule sum_list_nonneg) (auto simp: spec_delta_nonneg [OF assms(1) j])
    then show ?thesis by (simp add: spec_gradient_nth [OF j])
  qed
  obtain x xs where vx: "?v = x # xs" using len assms(2) by (cases ?v) auto
  then have "x = 0" using v0 by simp
  then have "np_max ?v = Inr (fold max xs x) \<and> 0 \<le> fold max xs x"
    using vx fold_max_ge [of x xs] by (simp add: np_max_def)
  then have "get_initial_vmax t data = Inr (fold max xs x) \<and> 0 \<le> fold max xs x"
    by (simp add: get_initial_vmax_def gv)
  with gv len v0 nn show ?thesis by blast
qed

theorem gradient_first_zero_nonneg_witness:
  "time_series example_t \<and> example_t \<noteq> [] \<and> example_data \<noteq> [] \<and>
   ndarray2 example_data (length example_t) \<and>
   (\<exists>v m. get_v example_t example_data = Inr v \<and> length v = 4 \<and> v ! 0 = 0 \<and>
      (\<forall>j<length v. 0 \<le> v ! j) \<and> get_initial_vmax example_t example_data = Inr m \<and> 0 \<le> m)"
proof -
  have h1: "time_series example_t" by (simp add: time_series_def example_t_def)
  have h2: "example_t \<noteq> []" by (simp add: example_t_def)
  have h3: "example_data \<noteq> []" by (simp add: example_data_def)
  have h4: "ndarray2 example_data (length example_t)"
    by (simp add: ndarray2_def example_data_def example_t_def)
  have "length example_t = 4" by (simp add: example_t_def)
  with gradient_first_zero_nonneg [OF h1 h2 h3 h4] h1 h2 h3 h4 show ?thesis by simp
qed

subsection \<open>First maximum and first minimum of a curve\<close>

lemma np_max_Max: "v \<noteq> [] \<Longrightarrow> np_max v = Inr (Max (set v))"
  by (cases v) (simp_all add: np_max_def Max.set_eq_fold [symmetric])

lemma filter_upt_Cons:
  assumes "filter P [0..<n] = i # rest"
  shows "i < n \<and> P i \<and> (\<forall>k<i. \<not> P k)"
proof -
  from assms obtain us vs where s: "[0..<n] = us @ i # vs" and u: "\<forall>u\<in>set us. \<not> P u" and p: "P i"
    by (auto simp: filter_eq_Cons_iff)
  have "i \<in> set [0..<n]" unfolding s by simp
  then have i: "i < n" by simp
  have l: "length us < n" using arg_cong [OF s, of length] by simp
  have "[0..<n] ! length us = i" unfolding s by simp
  then have li: "length us = i" using l by simp
  have "k \<in> set us" if "k < i" for k
  proof -
    have "us ! k = [0..<n] ! k" unfolding s using that li by (simp add: nth_append)
    also have "\<dots> = k" using that i by simp
    finally show ?thesis using that li by (metis nth_mem)
  qed
  with u p i show ?thesis by blast
qed

lemma where_eq_Max:
  assumes "v \<noteq> []"
  shows "\<exists>i. getitem (where_eq v (Max (set v))) 0 = Inr i \<and> i < length v \<and>
           v ! i = Max (set v) \<and> (\<forall>k<i. v ! k < Max (set v))"
proof -
  let ?M = "Max (set v)"
  have "?M \<in> set v" using assms by (simp add: Max_in)
  then obtain j where j: "j < length v" "v ! j = ?M" by (auto simp: in_set_conv_nth)
  then have "j \<in> set (where_eq v ?M)" by (simp add: where_eq_def)
  then obtain i rest where w: "where_eq v ?M = i # rest" by (cases "where_eq v ?M") auto
  from filter_upt_Cons [OF w [unfolded where_eq_def]]
  have i: "i < length v" "v ! i = ?M" "\<forall>k<i. v ! k \<noteq> ?M" by auto
  have "v ! k < ?M" if "k < i" for k
  proof -
    have "v ! k \<in> set v" using that i(1) by simp
    then have "v ! k \<le> ?M" by simp
    with i(3) that show ?thesis by (simp add: less_le)
  qed
  with i w show ?thesis by (simp add: getitem_def)
qed

lemma argmin_scan_inv:
  assumes "ys = pre @ xs" "i = length pre" "best < i" "least = ys ! best"
    "\<forall>k<i. least \<le> ys ! k" "\<forall>k<best. least < ys ! k"
  shows "argmin_scan xs i best least < length ys \<and>
         (\<forall>k<length ys. ys ! argmin_scan xs i best least \<le> ys ! k) \<and>
         (\<forall>k<argmin_scan xs i best least. ys ! argmin_scan xs i best least < ys ! k)"
  using assms
proof (induction xs arbitrary: pre i best least)
  case Nil
  then show ?case by simp
next
  case (Cons x xs)
  have ys: "ys = (pre @ [x]) @ xs" using Cons.prems(1) by simp
  have si: "Suc i = length (pre @ [x])" using Cons.prems(2) by simp
  have yi: "ys ! i = x" using Cons.prems(1,2) by simp
  show ?case
  proof (cases "x < least")
    case True
    have a: "\<forall>k<Suc i. x \<le> ys ! k"
      using Cons.prems(5) True yi by (auto simp: less_Suc_eq)
    have b: "\<forall>k<i. x < ys ! k"
      using Cons.prems(5) True by fastforce
    have "i < Suc i" by simp
    from Cons.IH [OF ys si this yi [symmetric] a b] True show ?thesis by simp
  next
    case False
    have a: "\<forall>k<Suc i. least \<le> ys ! k"
      using Cons.prems(5) False yi by (auto simp: less_Suc_eq)
    have "best < Suc i" using Cons.prems(3) by simp
    from Cons.IH [OF ys si this Cons.prems(4) a Cons.prems(6)] False show ?thesis by simp
  qed
qed

lemma argmin_first:
  assumes "ys \<noteq> []"
  shows "\<exists>r. argmin ys = Inr r \<and> r < length ys \<and> (\<forall>k<length ys. ys ! r \<le> ys ! k) \<and>
           (\<forall>k<r. ys ! r < ys ! k)"
proof -
  obtain x rest where ys: "ys = [x] @ rest" using assms by (cases ys) auto
  have a: "argmin ys = Inr (argmin_scan rest 1 0 x)" by (simp add: ys argmin_def)
  have "(1::nat) = length [x]" "(0::nat) < 1" "x = ys ! 0" "\<forall>k<1::nat. x \<le> ys ! k"
    "\<forall>k<0::nat. x < ys ! k"
    by (simp_all add: ys)
  from argmin_scan_inv [OF ys this] a show ?thesis by blast
qed

subsection \<open>The Km heuristic\<close>

text \<open>
  C4: on a valid time series and matrix, \<open>get_initial_Km\<close> takes the first index
  \<open>idx_max\<close> of the maximum of the gradient curve, the first position \<open>idx_halfmax\<close>
  from there on whose gradient is closest to half the maximum, reads the column mean at
  \<open>idx_max + idx_halfmax\<close>, and subtracts the bias (the mean of the last column) exactly
  when the column mean is strictly greater; a subtraction therefore leaves a positive
  value, and a negative result is the unadjusted column mean.
\<close>

theorem get_initial_Km_half_max:
  assumes "time_series t" and "t \<noteq> []" and "data \<noteq> []" and "ndarray2 data (length t)"
  shows "\<exists>v idx_max idx_halfmax km bias r.
     get_v t data = Inr v \<and>
     idx_max < length v \<and> v ! idx_max = Max (set v) \<and> (\<forall>k<idx_max. v ! k < Max (set v)) \<and>
     idx_max + idx_halfmax < length v \<and>
     (\<forall>k<length v. idx_max \<le> k \<longrightarrow>
        \<bar>v ! (idx_max + idx_halfmax) - Max (set v) / 2\<bar> \<le> \<bar>v ! k - Max (set v) / 2\<bar>) \<and>
     (\<forall>k<idx_max + idx_halfmax. idx_max \<le> k \<longrightarrow>
        \<bar>v ! (idx_max + idx_halfmax) - Max (set v) / 2\<bar> < \<bar>v ! k - Max (set v) / 2\<bar>) \<and>
     km = spec_col_mean data (idx_max + idx_halfmax) \<and>
     bias = spec_col_mean data (length t - 1) \<and>
     get_initial_bias data = Inr bias \<and>
     get_initial_Km t data = Inr r \<and>
     r = (if km > bias then km - bias else km) \<and>
     (km > bias \<longrightarrow> 0 < r) \<and> (r < 0 \<longrightarrow> km < 0)"
proof -
  let ?v = "spec_gradient t data"
  let ?M = "Max (set ?v)"
  let ?n = "length t"
  have n: "0 < ?n" using assms(2) by (cases t) simp_all
  have gv: "get_v t data = Inr ?v" by (rule get_v_spec_gradient [OF assms])
  have len: "length ?v = ?n" by (simp add: spec_gradient_def)
  have ne: "?v \<noteq> []" using len n by auto
  have mx: "np_max ?v = Inr ?M" by (rule np_max_Max [OF ne])
  from where_eq_Max [OF ne] obtain i where
    i: "getitem (where_eq ?v ?M) 0 = Inr i" "i < length ?v" "?v ! i = ?M" "\<forall>k<i. ?v ! k < ?M"
    by blast
  let ?ys = "map (\<lambda>x. \<bar>x - ?M / 2\<bar>) (drop i ?v)"
  have lys: "length ?ys = length ?v - i" by simp
  have "?ys \<noteq> []" using i(2) by simp
  from argmin_first [OF this] obtain h where
    h: "argmin ?ys = Inr h" "h < length ?ys" "\<forall>k<length ?ys. ?ys ! h \<le> ?ys ! k"
       "\<forall>k<h. ?ys ! h < ?ys ! k"
    by blast
  have ih: "i + h < length ?v" using h(2) lys by simp
  have ysn: "?ys ! k = \<bar>?v ! (i + k) - ?M / 2\<bar>" if "k < length ?ys" for k
    using that by simp
  have cl: "\<bar>?v ! (i + h) - ?M / 2\<bar> \<le> \<bar>?v ! k - ?M / 2\<bar>" if "k < length ?v" "i \<le> k" for k
  proof -
    have k: "k - i < length ?ys" using that lys i(2) by simp
    from h(3) k have "?ys ! h \<le> ?ys ! (k - i)" by blast
    then show ?thesis using ysn [OF k] ysn [OF h(2)] that by simp
  qed
  have fs: "\<bar>?v ! (i + h) - ?M / 2\<bar> < \<bar>?v ! k - ?M / 2\<bar>" if "k < i + h" "i \<le> k" for k
  proof -
    have k: "k - i < h" using that by simp
    then have k': "k - i < length ?ys" using h(2) by simp
    from h(4) k have "?ys ! h < ?ys ! (k - i)" by blast
    then show ?thesis using ysn [OF k'] ysn [OF h(2)] that by simp
  qed
  have m: "mean_axis0 data = Inr (map (spec_col_mean data) [0..<?n])"
    by (rule mean_axis0_Cons [OF assms(3,4)])
  let ?km = "spec_col_mean data (i + h)"
  let ?b = "spec_col_mean data (?n - 1)"
  have gk: "getitem (map (spec_col_mean data) [0..<?n]) (int (i + h)) = Inr ?km"
    using ih len by (simp add: getitem_def del: of_nat_add)
  have gb: "get_initial_bias data = Inr ?b"
    by (rule get_initial_bias_col_mean [OF assms(3,4) n])
  let ?r = "if ?km > ?b then ?km - ?b else ?km"
  have km: "get_initial_Km t data = Inr ?r"
    unfolding get_initial_Km_def by (simp add: gv mx i(1) h(1) m gk gb del: of_nat_add)
  have "(?km > ?b \<longrightarrow> 0 < ?r) \<and> (?r < 0 \<longrightarrow> ?km < 0)" by simp
  with gv i(2,3,4) ih cl fs gb km show ?thesis by blast
qed

theorem get_initial_Km_half_max_witness:
  "time_series example_t \<and> example_t \<noteq> [] \<and> example_data \<noteq> [] \<and>
   ndarray2 example_data (length example_t) \<and>
   get_initial_bias example_data = Inr 2.05 \<and>
   get_initial_Km example_t example_data = Inr 1.9"
proof -
  have h1: "time_series example_t" by (simp add: time_series_def example_t_def)
  have h2: "example_t \<noteq> []" by (simp add: example_t_def)
  have h3: "example_data \<noteq> []" by (simp add: example_data_def)
  have h4: "ndarray2 example_data (length example_t)"
    by (simp add: ndarray2_def example_data_def example_t_def)
  from get_initial_Km_half_max [OF h1 h2 h3 h4] obtain km bias r where
    b: "get_initial_bias example_data = Inr bias" and
    r: "get_initial_Km example_t example_data = Inr r" and
    e: "r = (if km > bias then km - bias else km)"
    by blast
  have "get_initial_bias example_data = Inr 2.05"
    by (simp add: get_initial_bias_def example_data_def mean_axis0_def column_def getitem_def)
  moreover have "get_initial_Km example_t example_data = Inr 1.9"
    by code_simp
  ultimately show ?thesis using h1 h2 h3 h4 b r by simp
qed

subsection \<open>The residual loops\<close>

lemma collect_snoc:
  "collect (rs @ [r]) =
     (case collect rs of
        Inl e \<Rightarrow> Inl e
      | Inr xs \<Rightarrow> (case r of Inl e \<Rightarrow> Inl e | Inr x \<Rightarrow> Inr (xs @ [x])))"
  by (induction rs rule: collect.induct) (auto split: sum.splits)

lemma residual_loop_upt:
  assumes "slice_column (solveODE odeint f t w0 params) nW = Inr s" "length res = m" "k \<le> m"
  shows "residual_loop odeint params t data f w0 nW res [k..<m] =
     (case collect (map (\<lambda>i. row_minus (data ! i) s) [k..<m]) of
        Inl e \<Rightarrow> Inl e
      | Inr rows \<Rightarrow> Inr (take k res @ rows))"
  using assms(2,3)
proof (induction "m - k" arbitrary: k res)
  case 0
  then show ?case by simp
next
  case (Suc d)
  then have km: "k < m" by simp
  have upt: "[k..<m] = k # [Suc k..<m]" using km by (simp add: upt_conv_Cons)
  have d: "d = m - Suc k" using Suc.hyps by simp
  show ?case
  proof (cases "row_minus (data ! k) s")
    case (Inl e)
    then show ?thesis by (simp add: upt assms(1))
  next
    case (Inr row)
    have tk: "take (Suc k) (res[k := row]) = take k res @ [row]"
      using km Suc.prems by (simp add: take_Suc_conv_app_nth)
    have "residual_loop odeint params t data f w0 nW (res[k := row]) [Suc k..<m] =
      (case collect (map (\<lambda>i. row_minus (data ! i) s) [Suc k..<m]) of
        Inl e \<Rightarrow> Inl e
      | Inr rows \<Rightarrow> Inr (take (Suc k) (res[k := row]) @ rows))"
      using Suc.hyps(1) [OF d, of "res[k := row]"] km Suc.prems by simp
    then show ?thesis
      using Inr by (simp add: upt assms(1) tk split: sum.splits)
  qed
qed

lemma residual_loop_no_column:
  assumes "slice_column (solveODE odeint f t w0 params) nW = Inl e" "k < m"
  shows "residual_loop odeint params t data f w0 nW res [k..<m] = Inl e"
  using assms by (simp add: upt_conv_Cons)

lemma residual_with_bias_loop_upt:
  assumes "slice_column (solveODE odeint f t w0 params) nW = Inr s"
    "lookup_value params ''bias'' = Inr b" "length res = m" "k \<le> m"
  shows "residual_with_bias_loop odeint params t data f w0 nW res [k..<m] =
     (case collect (map (\<lambda>i. row_minus (data ! i) (map (\<lambda>x. x + b) s)) [k..<m]) of
        Inl e \<Rightarrow> Inl e
      | Inr rows \<Rightarrow> Inr (take k res @ rows))"
  using assms(3,4)
proof (induction "m - k" arbitrary: k res)
  case 0
  then show ?case by simp
next
  case (Suc d)
  then have km: "k < m" by simp
  have upt: "[k..<m] = k # [Suc k..<m]" using km by (simp add: upt_conv_Cons)
  have d: "d = m - Suc k" using Suc.hyps by simp
  show ?case
  proof (cases "row_minus (data ! k) (map (\<lambda>x. x + b) s)")
    case (Inl e)
    then show ?thesis by (simp add: upt assms(1,2))
  next
    case (Inr row)
    have tk: "take (Suc k) (res[k := row]) = take k res @ [row]"
      using km Suc.prems by (simp add: take_Suc_conv_app_nth)
    have "residual_with_bias_loop odeint params t data f w0 nW (res[k := row]) [Suc k..<m] =
      (case collect (map (\<lambda>i. row_minus (data ! i) (map (\<lambda>x. x + b) s)) [Suc k..<m]) of
        Inl e \<Rightarrow> Inl e
      | Inr rows \<Rightarrow> Inr (take (Suc k) (res[k := row]) @ rows))"
      using Suc.hyps(1) [OF d, of "res[k := row]"] km Suc.prems by simp
    then show ?thesis
      using Inr by (simp add: upt assms(1,2) tk split: sum.splits)
  qed
qed

lemma residual_with_bias_loop_no_column:
  assumes "slice_column (solveODE odeint f t w0 params) nW = Inl e" "k < m"
  shows "residual_with_bias_loop odeint params t data f w0 nW res [k..<m] = Inl e"
  using assms by (simp add: upt_conv_Cons)

lemma residual_with_bias_loop_no_bias:
  assumes "slice_column (solveODE odeint f t w0 params) nW = Inr s"
    "lookup_value params ''bias'' = Inl e" "k < m"
  shows "residual_with_bias_loop odeint params t data f w0 nW res [k..<m] = Inl e"
  using assms by (simp add: upt_conv_Cons)

lemma map_rows_nth: "map (\<lambda>i. g (data ! i)) [0..<length data] = map g data"
  by (rule nth_equalityI) simp_all

lemma residual_given_column:
  assumes "initial_state params = Inr (w0, nW)"
    "slice_column (solveODE odeint f t w0 params) nW = Inr s"
  shows "residual odeint params t data f =
     (case collect (map (\<lambda>row. row_minus row s) data) of
        Inl e \<Rightarrow> Inl e | Inr rows \<Rightarrow> Inr (concat rows))"
proof -
  define res where "res = map (map (\<lambda>x. 0 * x)) data"
  have "length res = length data" by (simp add: res_def)
  from residual_loop_upt [OF assms(2) this, of 0 data]
  have "residual_loop odeint params t data f w0 nW res [0..<length data]
     = (case collect (map (\<lambda>row. row_minus row s) data) of
          Inl e \<Rightarrow> Inl e | Inr rows \<Rightarrow> Inr rows)"
    by (simp add: map_rows_nth [of "\<lambda>row. row_minus row s" data] split: sum.splits)
  then show ?thesis
    unfolding residual_def res_def [symmetric] by (simp add: assms(1) split: sum.splits)
qed

lemma residual_with_bias_given_column:
  assumes "initial_state params = Inr (w0, nW)"
    "slice_column (solveODE odeint f t w0 params) nW = Inr s"
    "lookup_value params ''bias'' = Inr b"
  shows "residual_with_bias odeint params t data f =
     (case collect (map (\<lambda>row. row_minus row (map (\<lambda>x. x + b) s)) data) of
        Inl e \<Rightarrow> Inl e | Inr rows \<Rightarrow> Inr (concat rows))"
proof -
  define res where "res = map (map (\<lambda>x. 0 * x)) data"
  have "length res = length data" by (simp add: res_def)
  from residual_with_bias_loop_upt [OF assms(2,3) this, of 0 data]
  have "residual_with_bias_loop odeint params t data f w0 nW res [0..<length data]
     = (case collect (map (\<lambda>row. row_minus row (map (\<lambda>x. x + b) s)) data) of
          Inl e \<Rightarrow> Inl e | Inr rows \<Rightarrow> Inr rows)"
    by (simp add: map_rows_nth [of "\<lambda>row. row_minus row (map (\<lambda>x. x + b) s)" data]
        split: sum.splits)
  then show ?thesis
    unfolding residual_with_bias_def res_def [symmetric] by (simp add: assms(1) split: sum.splits)
qed

lemma residual_eq_once:
  assumes "data \<noteq> []"
  shows "residual odeint params t data f = spec_residual_once odeint params t data f"
proof (cases "initial_state params")
  case (Inl e)
  then show ?thesis by (simp add: residual_def spec_residual_once_def)
next
  case (Inr p)
  obtain w0 nW where p: "p = (w0, nW)" by (cases p)
  have m: "0 < length data" using assms by simp
  show ?thesis
  proof (cases "slice_column (solveODE odeint f t w0 params) nW")
    case (Inl e)
    from residual_loop_no_column [OF Inl m] Inl show ?thesis
      unfolding residual_def spec_residual_once_def by (simp add: Inr p)
  next
    case s: (Inr s)
    have "initial_state params = Inr (w0, nW)" by (simp add: Inr p)
    from residual_given_column [OF this s] show ?thesis
      by (simp add: spec_residual_once_def Inr p s)
  qed
qed

lemma residual_with_bias_eq_once:
  assumes "data \<noteq> []"
  shows "residual_with_bias odeint params t data f = spec_residual_with_bias_once odeint params t data f"
proof (cases "initial_state params")
  case (Inl e)
  then show ?thesis by (simp add: residual_with_bias_def spec_residual_with_bias_once_def)
next
  case (Inr p)
  obtain w0 nW where p: "p = (w0, nW)" by (cases p)
  have m: "0 < length data" using assms by simp
  show ?thesis
  proof (cases "slice_column (solveODE odeint f t w0 params) nW")
    case (Inl e)
    from residual_with_bias_loop_no_column [OF Inl m] Inl show ?thesis
      unfolding residual_with_bias_def spec_residual_with_bias_once_def by (simp add: Inr p)
  next
    case s: (Inr s)
    show ?thesis
    proof (cases "lookup_value params ''bias''")
      case (Inl e)
      from residual_with_bias_loop_no_bias [OF s Inl m] Inl s show ?thesis
        unfolding residual_with_bias_def spec_residual_with_bias_once_def by (simp add: Inr p)
    next
      case b: (Inr b)
      have "initial_state params = Inr (w0, nW)" by (simp add: Inr p)
      from residual_with_bias_given_column [OF this s b] show ?thesis
        by (simp add: spec_residual_with_bias_once_def Inr p s b)
    qed
  qed
qed

text \<open>
  C5: for every input with at least one replicate row the loop that solves the ODE once per
  row returns what the single solution subtracted from every row returns, errors
  included, for both residual variants; and for every input, whatever vector the
  single-solution computation returns, the loop returns the same vector.
\<close>

theorem residual_loop_equals_once:
  "(data \<noteq> [] \<longrightarrow>
      residual odeint params t data f = spec_residual_once odeint params t data f \<and>
      residual_with_bias odeint params t data f =
        spec_residual_with_bias_once odeint params t data f) \<and>
   (\<forall>r. spec_residual_once odeint params t data f = Inr r \<longrightarrow>
      residual odeint params t data f = Inr r) \<and>
   (\<forall>r. spec_residual_with_bias_once odeint params t data f = Inr r \<longrightarrow>
      residual_with_bias odeint params t data f = Inr r)"
proof (cases "data = []")
  case True
  have "residual odeint params t [] f = Inr r"
    if "spec_residual_once odeint params t [] f = Inr r" for r
    using that unfolding residual_def spec_residual_once_def
    by (auto split: sum.splits prod.splits)
  moreover have "residual_with_bias odeint params t [] f = Inr r"
    if "spec_residual_with_bias_once odeint params t [] f = Inr r" for r
    using that unfolding residual_with_bias_def spec_residual_with_bias_once_def
    by (auto split: sum.splits prod.splits)
  ultimately show ?thesis using True by blast
next
  case False
  from residual_eq_once [OF False, of odeint params t f]
    residual_with_bias_eq_once [OF False, of odeint params t f]
  show ?thesis by simp
qed

theorem residual_loop_equals_once_witness:
  "example_data \<noteq> [] \<and>
   spec_residual_once odeint_const example_params example_t example_data 1
     = Inr [0, 0, 0, - 1, 0, 0.2, - 0.2, - 0.9] \<and>
   residual odeint_const example_params example_t example_data 1
     = Inr [0, 0, 0, - 1, 0, 0.2, - 0.2, - 0.9] \<and>
   spec_residual_with_bias_once odeint_const example_params example_t example_data 1
     = Inr [- 0.05, - 0.05, - 0.05, - 1.05, - 0.05, 0.15, - 0.25, - 0.95] \<and>
   residual_with_bias odeint_const example_params example_t example_data 1
     = Inr [- 0.05, - 0.05, - 0.05, - 1.05, - 0.05, 0.15, - 0.25, - 0.95]"
proof -
  have h: "example_data \<noteq> []" by (simp add: example_data_def)
  have a: "spec_residual_once odeint_const example_params example_t example_data 1
     = Inr [0, 0, 0, - 1, 0, 0.2, - 0.2, - 0.9]"
    by code_simp
  have b: "spec_residual_with_bias_once odeint_const example_params example_t example_data 1
     = Inr [- 0.05, - 0.05, - 0.05, - 1.05, - 0.05, 0.15, - 0.25, - 0.95]"
    by code_simp
  from residual_loop_equals_once [of example_data odeint_const example_params example_t 1]
  show ?thesis using h a b by simp
qed

subsection \<open>The residuals as specified\<close>

lemma initial_state_spec:
  assumes "params ''S0'' \<noteq> None"
  shows "initial_state params = Inr (spec_w0 params, spec_S_index params)"
  using assms
  by (auto simp: initial_state_def lookup_value_def spec_w0_def spec_S_index_def
      split: option.splits)

lemma slice_column_state_matrix:
  assumes "state_matrix model t (spec_w0 params)"
  shows "slice_column model (spec_S_index params) = Inr (column model (spec_S_index params))"
proof -
  have "list_all (\<lambda>r. spec_S_index params < length r) model"
    using assms
    by (auto simp: state_matrix_def spec_w0_def spec_S_index_def list_all_iff
        split: option.splits)
  then show ?thesis by (simp add: slice_column_def)
qed

lemma collect_all_Inr: "collect (map (\<lambda>x. Inr (g x)) xs) = Inr (map g xs)"
  by (induction xs) simp_all

lemma collect_row_minus:
  assumes "ndarray2 data n" "length s = n"
  shows "collect (map (\<lambda>row. row_minus row s) data)
     = Inr (map (\<lambda>row. map (\<lambda>j. row ! j - s ! j) [0..<n]) data)"
proof -
  have "row_minus row s = Inr (map (\<lambda>j. row ! j - s ! j) [0..<n])" if "row \<in> set data" for row
  proof -
    have l: "length row = n" using that assms(1) by (simp add: ndarray2_def list_all_iff)
    have "map2 (-) row s = map (\<lambda>j. row ! j - s ! j) [0..<n]"
      by (rule nth_equalityI) (simp_all add: l assms(2))
    then show ?thesis by (simp add: row_minus_def l assms(2))
  qed
  then have "map (\<lambda>row. row_minus row s) data
     = map (\<lambda>row. Inr (map (\<lambda>j. row ! j - s ! j) [0..<n])) data"
    by simp
  then show ?thesis by (simp only: collect_all_Inr)
qed

lemma concat_rows_spec:
  assumes "length model = n"
  shows "concat (map (\<lambda>row. map (\<lambda>j. row ! j - map g (column model k) ! j) [0..<n]) data)
     = spec_flatten (length data) n (\<lambda>i j. data ! i ! j - g (model ! j ! k))"
proof -
  have "map (\<lambda>row. map (\<lambda>j. row ! j - map g (column model k) ! j) [0..<n]) data
     = map (\<lambda>i. map (\<lambda>j. data ! i ! j - g (model ! j ! k)) [0..<n]) [0..<length data]"
    by (rule nth_equalityI) (simp_all add: column_def assms)
  then show ?thesis by (simp add: spec_flatten_def)
qed

text \<open>
  C2: when \<open>params\<close> has an \<open>S0\<close> entry, the rows of \<open>data\<close> are as long as
  \<open>t\<close> and the integrator returns one state per time point, the plain residual
  function returns the row-major flattening of \<open>data[i][j] - model[j][S-index]\<close>, and
  with a \<open>bias\<close> entry the bias variant returns that of
  \<open>data[i][j] - (model[j][S-index] + bias)\<close>; the model starts from \<open>(v0, S0)\<close> with
  index 1 when \<open>v0\<close> is present and from \<open>S0\<close> with index 0 otherwise.
\<close>

theorem residual_is_spec_residual:
  assumes "params ''S0'' \<noteq> None" and "ndarray2 data (length t)"
    and "state_matrix (solveODE odeint f t (spec_w0 params) params) t (spec_w0 params)"
  shows "residual odeint params t data f =
           Inr (spec_flatten (length data) (length t)
                  (\<lambda>i j. data ! i ! j -
                     solveODE odeint f t (spec_w0 params) params ! j ! spec_S_index params)) \<and>
         (params ''bias'' \<noteq> None \<longrightarrow>
            residual_with_bias odeint params t data f =
              Inr (spec_flatten (length data) (length t)
                     (\<lambda>i j. data ! i ! j -
                        (solveODE odeint f t (spec_w0 params) params ! j ! spec_S_index params
                         + pvalue (the (params ''bias''))))))"
proof -
  let ?model = "solveODE odeint f t (spec_w0 params) params"
  let ?k = "spec_S_index params"
  have i: "initial_state params = Inr (spec_w0 params, ?k)"
    using assms(1) by (rule initial_state_spec)
  have c: "slice_column ?model ?k = Inr (column ?model ?k)"
    using assms(3) by (rule slice_column_state_matrix)
  have lm: "length ?model = length t" using assms(3) by (simp add: state_matrix_def)
  have lc: "length (column ?model ?k) = length t" by (simp add: column_def lm)
  have z: "map (\<lambda>x. x) (column ?model ?k) = column ?model ?k" by simp
  have "residual odeint params t data f =
      Inr (spec_flatten (length data) (length t) (\<lambda>i j. data ! i ! j - ?model ! j ! ?k))"
    using residual_given_column [OF i c, of data]
      collect_row_minus [OF assms(2) lc] concat_rows_spec [OF lm, of "\<lambda>x. x" ?k data]
    by (simp only: z sum.case)
  moreover have "residual_with_bias odeint params t data f =
      Inr (spec_flatten (length data) (length t)
        (\<lambda>i j. data ! i ! j - (?model ! j ! ?k + pvalue (the (params ''bias'')))))"
    if "params ''bias'' \<noteq> None"
  proof -
    let ?b = "pvalue (the (params ''bias''))"
    have b: "lookup_value params ''bias'' = Inr ?b"
      using that by (auto simp: lookup_value_def)
    have lb: "length (map (\<lambda>x. x + ?b) (column ?model ?k)) = length t" using lc by simp
    show ?thesis
      using residual_with_bias_given_column [OF i c b, of data]
        collect_row_minus [OF assms(2) lb] concat_rows_spec [OF lm, of "\<lambda>x. x + ?b" ?k data]
      by (simp only: sum.case)
  qed
  ultimately show ?thesis by blast
qed

theorem residual_is_spec_residual_witness:
  "example_params ''S0'' \<noteq> None \<and> example_params ''bias'' \<noteq> None \<and>
   ndarray2 example_data (length example_t) \<and>
   state_matrix (solveODE odeint_const 1 example_t (spec_w0 example_params) example_params)
     example_t (spec_w0 example_params) \<and>
   residual odeint_const example_params example_t example_data 1
     = Inr [0, 0, 0, - 1, 0, 0.2, - 0.2, - 0.9] \<and>
   residual_with_bias odeint_const example_params example_t example_data 1
     = Inr [- 0.05, - 0.05, - 0.05, - 1.05, - 0.05, 0.15, - 0.25, - 0.95] \<and>
   example_params_v0 ''S0'' \<noteq> None \<and> example_params_v0 ''v0'' \<noteq> None \<and>
   state_matrix (solveODE odeint_const 1 example_t (spec_w0 example_params_v0) example_params_v0)
     example_t (spec_w0 example_params_v0) \<and>
   residual odeint_const example_params_v0 example_t example_data 1
     = Inr [0, 0, 0, - 1, 0, 0.2, - 0.2, - 0.9]"
proof -
  have h1: "example_params ''S0'' \<noteq> None" by (simp add: example_params_def)
  have h2: "ndarray2 example_data (length example_t)"
    by (simp add: ndarray2_def example_data_def example_t_def)
  have h3: "state_matrix (solveODE odeint_const 1 example_t (spec_w0 example_params) example_params)
     example_t (spec_w0 example_params)"
    by code_simp
  have h4: "example_params ''bias'' \<noteq> None" by (simp add: example_params_def)
  have a: "spec_flatten (length example_data) (length example_t)
      (\<lambda>i j. example_data ! i ! j -
         solveODE odeint_const 1 example_t (spec_w0 example_params) example_params ! j
           ! spec_S_index example_params)
     = [0, 0, 0, - 1, 0, 0.2, - 0.2, - 0.9]"
    by code_simp
  have b: "spec_flatten (length example_data) (length example_t)
      (\<lambda>i j. example_data ! i ! j -
         (solveODE odeint_const 1 example_t (spec_w0 example_params) example_params ! j
           ! spec_S_index example_params + pvalue (the (example_params ''bias''))))
     = [- 0.05, - 0.05, - 0.05, - 1.05, - 0.05, 0.15, - 0.25, - 0.95]"
    by code_simp
  from residual_is_spec_residual [OF h1 h2 h3] h4
  have "residual odeint_const example_params example_t example_data 1
     = Inr [0, 0, 0, - 1, 0, 0.2, - 0.2, - 0.9]"
    and "residual_with_bias odeint_const example_params example_t example_data 1
     = Inr [- 0.05, - 0.05, - 0.05, - 1.05, - 0.05, 0.15, - 0.25, - 0.95]"
    unfolding a b by blast+
  note first = this
  have g1: "example_params_v0 ''S0'' \<noteq> None" "example_params_v0 ''v0'' \<noteq> None"
    by (simp_all add: example_params_v0_def example_params_def)
  have g3: "state_matrix
     (solveODE odeint_const 1 example_t (spec_w0 example_params_v0) example_params_v0)
     example_t (spec_w0 example_params_v0)"
    by code_simp
  have c: "spec_flatten (length example_data) (length example_t)
      (\<lambda>i j. example_data ! i ! j -
         solveODE odeint_const 1 example_t (spec_w0 example_params_v0) example_params_v0 ! j
           ! spec_S_index example_params_v0)
     = [0, 0, 0, - 1, 0, 0.2, - 0.2, - 0.9]"
    by code_simp
  from residual_is_spec_residual [OF g1(1) h2 g3]
  have "residual odeint_const example_params_v0 example_t example_data 1
     = Inr [0, 0, 0, - 1, 0, 0.2, - 0.2, - 0.9]"
    unfolding c by blast
  with first h1 h2 h3 h4 g1 g3 show ?thesis by blast
qed

subsection \<open>Dispatch of the fit\<close>

lemma fit_model_dispatch:
  assumes "minimize (residual_with_bias odeint) params t data ode \<noteq> Inl KeyError"
  shows "fst (fit_model odeint minimize t data params ode)
     = (if params ''bias'' = None then [Residual] else [Residual_with_bias])"
  using assms
  by (auto simp: fit_model_def lookup_value_def split: option.splits sum.splits error.splits)

text \<open>
  C3: a call of \<open>fit_model\<close> hands exactly one residual function to the minimizer,
  chosen by the presence of \<open>bias\<close>, as long as the minimization with the bias-aware
  function raises no KeyError (lemma \<open>fit_model_dispatch\<close>). On parameters with a
  \<open>bias\<close> entry and no \<open>S0\<close> entry the bias-aware residual function raises
  KeyError inside \<open>minimize\<close>, the handler of \<open>fit_model\<close> catches it, and the plain
  residual function is handed to the minimizer as well: both paths run in one call.
\<close>

theorem fit_model_both_paths:
  "fit_model odeint_const minimize_start example_t example_data bias_only_params 1
     = ([Residual_with_bias, Residual], Inl KeyError)"
  by code_simp

subsection \<open>The table of fitted parameters\<close>

lemma table_inner_spec:
  "table_inner item keys inner_array = inner_array @ map (\<lambda>key. spec_cell key item) keys"
proof (induction keys arbitrary: inner_array)
  case Nil
  show ?case by simp
next
  case (Cons key keys)
  show ?case
    by (cases "result_params item key")
      (simp_all add: Cons.IH valuesdict_def spec_cell_def Let_def)
qed

lemma table_outer_spec:
  "table_outer results rows columns table =
     (columns @ map fst results,
      table @ map (\<lambda>kv. map (\<lambda>key. spec_cell key (snd kv)) rows) results)"
proof (induction results arbitrary: columns table)
  case Nil
  show ?case by simp
next
  case (Cons kv results)
  obtain key item where kv: "kv = (key, item)" by (cases kv)
  show ?case by (simp add: kv Cons.IH table_inner_spec)
qed

lemma np_transpose_rect:
  assumes "table \<noteq> []" "\<forall>row\<in>set table. length row = n"
  shows "np_transpose table = map (\<lambda>j. map (\<lambda>row. row ! j) table) [0..<n]"
  using assms by (cases table) (simp_all add: np_transpose_def)

lemma get_table_data_spec:
  "get_table_data results =
     (if results = [] then []
      else map (\<lambda>r. map (\<lambda>kv. spec_cell (spec_row_set ! r) (snd kv)) results)
             [0..<length spec_row_set],
      map fst results,
      [''S0 [mmol/L]'', ''bias [mmol/L]'', ''vmax [M/min]'', ''Km [mmol/L]'', ''a [1/min]''])"
proof (cases "results = []")
  case True
  then show ?thesis by (simp add: get_table_data_def np_transpose_def)
next
  case False
  let ?table = "map (\<lambda>kv. map (\<lambda>key. spec_cell key (snd kv)) spec_row_set) results"
  have "np_transpose ?table = map (\<lambda>j. map (\<lambda>row. row ! j) ?table) [0..<length spec_row_set]"
    using False by (intro np_transpose_rect) auto
  also have "\<dots> = map (\<lambda>r. map (\<lambda>kv. spec_cell (spec_row_set ! r) (snd kv)) results)
             [0..<length spec_row_set]"
    by (simp add: comp_def)
  finally show ?thesis
    using False
    by (simp add: get_table_data_def table_outer_spec spec_row_set_def [symmetric])
qed

text \<open>
  C7: \<open>get_table_data\<close> returns the names of the fit results as column labels and, when
  there is a result, one row per key of the row set S0, bias, vmax, Km, a, each row with
  one cell per fit result: the marker \<open>'-'\<close> (which is not the number 0) where the
  result has no such parameter, and otherwise the value rounded to 3 decimal places,
  converted to a concentration first unless the key is vmax or a. One result with
  S0 = 1.0 and vmax = 5.0 gives the column 40.323, \<open>'-'\<close>, 5.0, \<open>'-'\<close>, \<open>'-'\<close>.
\<close>

theorem get_table_data_cells:
  assumes "get_table_data results = (table_data, columns, rows)"
  shows "columns = map fst results \<and>
         (results \<noteq> [] \<longrightarrow> length table_data = length spec_row_set) \<and>
         (\<forall>r<length table_data. length (table_data ! r) = length results \<and>
            (\<forall>k<length results.
               table_data ! r ! k = spec_cell (spec_row_set ! r) (snd (results ! k)))) \<and>
         (\<forall>key item. result_params item key = None \<longrightarrow>
            spec_cell key item = Dash \<and> spec_cell key item \<noteq> Num 0) \<and>
         get_table_data [(''fit'', example_result)] =
           ([[Num 40.323], [Dash], [Num 5.0], [Dash], [Dash]], [''fit''],
            [''S0 [mmol/L]'', ''bias [mmol/L]'', ''vmax [M/min]'', ''Km [mmol/L]'',
             ''a [1/min]''])"
proof -
  from assms have c: "columns = map fst results"
    and t: "table_data = (if results = [] then []
      else map (\<lambda>r. map (\<lambda>kv. spec_cell (spec_row_set ! r) (snd kv)) results)
             [0..<length spec_row_set])"
    by (simp_all add: get_table_data_spec)
  have l: "results \<noteq> [] \<longrightarrow> length table_data = length spec_row_set"
    by (simp add: t)
  have e: "length (table_data ! r) = length results \<and>
      (\<forall>k<length results. table_data ! r ! k = spec_cell (spec_row_set ! r) (snd (results ! k)))"
    if "r < length table_data" for r
    using that by (cases "results = []") (simp_all add: t)
  have d: "spec_cell key item = Dash \<and> spec_cell key item \<noteq> Num 0"
    if "result_params item key = None" for key item
    using that by (simp add: spec_cell_def)
  have x: "get_table_data [(''fit'', example_result)] =
           ([[Num 40.323], [Dash], [Num 5.0], [Dash], [Dash]], [''fit''],
            [''S0 [mmol/L]'', ''bias [mmol/L]'', ''vmax [M/min]'', ''Km [mmol/L]'',
             ''a [1/min]''])"
    by code_simp
  from c l e d x show ?thesis by blast
qed

theorem get_table_data_cells_witness:
  "get_table_data [(''fit'', example_result)] =
     ([[Num 40.323], [Dash], [Num 5.0], [Dash], [Dash]], [''fit''],
      [''S0 [mmol/L]'', ''bias [mmol/L]'', ''vmax [M/min]'', ''Km [mmol/L]'', ''a [1/min]'']) \<and>
   [(''fit'', example_result)] \<noteq> [] \<and> result_params example_result ''bias'' = None \<and>
   spec_cell ''S0'' example_result = Num 40.323 \<and>
   spec_cell ''bias'' example_result = Dash \<and>
   spec_cell ''vmax'' example_result = Num 5"
proof -
  have g: "get_table_data [(''fit'', example_result)] =
     ([[Num 40.323], [Dash], [Num 5.0], [Dash], [Dash]], [''fit''],
      [''S0 [mmol/L]'', ''bias [mmol/L]'', ''vmax [M/min]'', ''Km [mmol/L]'', ''a [1/min]''])"
    by code_simp
  have n: "result_params example_result ''bias'' = None" by (simp add: example_result_def)
  note th = get_table_data_cells [OF g]
  from th have r: "\<forall>r<length [[Num 40.323], [Dash], [Num 5.0], [Dash], [Dash]].
      \<forall>k<length [(''fit'', example_result)].
        [[Num 40.323], [Dash], [Num 5.0], [Dash], [Dash]] ! r ! k
          = spec_cell (spec_row_set ! r) (snd ([(''fit'', example_result)] ! k))"
    by blast
  from r [rule_format, of 0 0] have c0: "spec_cell ''S0'' example_result = Num 40.323"
    by (simp add: spec_row_set_def)
  from r [rule_format, of 1 0] have c1: "spec_cell ''bias'' example_result = Dash"
    by (simp add: spec_row_set_def)
  from r [rule_format, of 2 0] have c2: "spec_cell ''vmax'' example_result = Num 5"
    by (simp add: spec_row_set_def)
  from g n c0 c1 c2 show ?thesis by simp
qed

subsection \<open>Queries for absent reaction/species pairs\<close>

lemma setReactionDic_None:
  assumes "k \<notin> reaction_id ` set rs" "map_of dic k = None"
  shows "map_of (setReactionDic rs dic) k = None"
  using assms
proof (induction rs arbitrary: dic)
  case Nil
  then show ?case by simp
next
  case (Cons r rs)
  have "map_of (AList.update (reaction_id r) r dic) k = None"
    using Cons.prems by (simp add: update_conv')
  with Cons show ?case by simp
qed

lemma set_update_subset: "set (AList.update k v al) \<subseteq> insert (k, v) (set al)"
  by (induction al) auto

lemma setReactionDic_values:
  "snd ` set (setReactionDic rs dic) \<subseteq> snd ` set dic \<union> set rs"
proof (induction rs arbitrary: dic)
  case Nil
  show ?case by simp
next
  case (Cons r rs)
  have "snd ` set (AList.update (reaction_id r) r dic) \<subseteq> insert r (snd ` set dic)"
    using set_update_subset [of "reaction_id r" r dic] by force
  with Cons.IH [of "AList.update (reaction_id r) r dic"] show ?case by auto
qed

lemma str_listed_dom:
  assumes "str_listed rd key ps ty = Inr ty'"
  shows "dom ty' \<subseteq> dom ty \<union> p_species ` set ps"
  using assms
proof (induction ps arbitrary: ty)
  case Nil
  then show ?case by simp
next
  case (Cons p ps)
  then obtain name where "rd (p_species p) = Some name"
    and "str_listed rd key ps (ty(p_species p \<mapsto> key)) = Inr ty'"
    by (auto split: option.splits)
  from Cons.IH [OF this(2)] show ?case by auto
qed

lemma str_listed_error: "str_listed rd key ps ty = Inl e \<Longrightarrow> e = KeyError"
  by (induction ps arbitrary: ty) (auto split: option.splits)

lemma str_modifiers_dom: "dom (str_modifiers rd pd ms ty) \<subseteq> dom ty \<union> p_species ` set ms"
proof (induction ms arbitrary: ty)
  case Nil
  show ?case by simp
next
  case (Cons m ms)
  let ?ty1 = "case rd (p_species m) of None \<Rightarrow> ty | Some name \<Rightarrow> ty(p_species m \<mapsto> Modifiers)"
  let ?ty2 = "case pd (p_species m) of None \<Rightarrow> ?ty1 | Some name \<Rightarrow> ?ty1(p_species m \<mapsto> Modifiers)"
  have "dom ?ty2 \<subseteq> insert (p_species m) (dom ty)"
    by (auto split: option.splits if_splits)
  with Cons.IH [of ?ty2] show ?case by (auto simp: Let_def)
qed

lemma takes_part_iff:
  "takes_part r s \<longleftrightarrow> s \<in> p_species ` (set (educts r) \<union> set (products r) \<union> set (modifiers r))"
  by (auto simp: takes_part_def list_ex_iff)

lemma str_reactions_dom:
  assumes "str_reactions rd pd items ty = Inr ty'"
  shows "dom ty' \<subseteq> dom ty \<union> {s. \<exists>r\<in>snd ` set items. takes_part r s}"
  using assms
proof (induction items arbitrary: ty)
  case Nil
  then show ?case by simp
next
  case (Cons item items)
  from Cons.prems obtain ty1 ty2 where
    a: "str_listed rd Educts (educts (snd item)) ty = Inr ty1" and
    b: "str_listed rd Products (products (snd item)) ty1 = Inr ty2" and
    c: "str_reactions rd pd items (str_modifiers rd pd (modifiers (snd item)) ty2) = Inr ty'"
    by (auto split: sum.splits)
  have "dom (str_modifiers rd pd (modifiers (snd item)) ty2)
      \<subseteq> dom ty \<union> {s. takes_part (snd item) s}"
  proof
    fix x
    assume "x \<in> dom (str_modifiers rd pd (modifiers (snd item)) ty2)"
    with str_modifiers_dom [of rd pd "modifiers (snd item)" ty2]
    have "x \<in> dom ty2 \<or> x \<in> p_species ` set (modifiers (snd item))" by blast
    with str_listed_dom [OF b]
    have "x \<in> dom ty1 \<or> x \<in> p_species ` set (products (snd item))
        \<or> x \<in> p_species ` set (modifiers (snd item))" by blast
    with str_listed_dom [OF a]
    have "x \<in> dom ty \<or> x \<in> p_species ` set (educts (snd item))
        \<or> x \<in> p_species ` set (products (snd item))
        \<or> x \<in> p_species ` set (modifiers (snd item))" by blast
    then show "x \<in> dom ty \<union> {s. takes_part (snd item) s}"
      by (auto simp: takes_part_iff image_Un)
  qed
  with Cons.IH [OF c] show ?case by auto
qed

lemma str_reactions_error: "str_reactions rd pd items ty = Inl e \<Longrightarrow> e = KeyError"
  by (induction items arbitrary: ty) (auto split: sum.splits dest: str_listed_error)

lemma getData_reactants_none:
  assumes "\<not> list_ex (\<lambda>p. p_species p = species) ps"
  shows "getData_reactants ps species acc = acc"
  using assms by (induction ps) auto

lemma init_Inr:
  assumes "init empty_registry doc = Inr reg"
  shows "reactionDic reg = setReactionDic (doc_reaction doc) []"
    and "dom (typeDic reg) \<subseteq> {s. spec_species_present doc s}"
proof -
  let ?pd = "setProteinDic (doc_protein doc) Map.empty"
  let ?rd = "setReactantDic (doc_reactant doc) Map.empty"
  let ?rs = "setReactionDic (doc_reaction doc) []"
  from assms obtain ty where ty: "str_reactions ?rd ?pd ?rs Map.empty = Inr ty"
    and reg: "reg = \<lparr>protDic = ?pd, reactantDic = ?rd, reactionDic = ?rs, typeDic = ty\<rparr>"
    by (auto simp: init_def empty_registry_def Let_def split: sum.splits)
  show "reactionDic reg = ?rs" by (simp add: reg)
  have "snd ` set ?rs \<subseteq> set (doc_reaction doc)"
    using setReactionDic_values [of "doc_reaction doc" "[]"] by simp
  with str_reactions_dom [OF ty]
  show "dom (typeDic reg) \<subseteq> {s. spec_species_present doc s}"
    by (auto simp: reg spec_species_present_def list_ex_iff)
qed

lemma init_error: "init reg doc = Inl e \<Longrightarrow> e = KeyError"
  by (auto simp: init_def Let_def split: sum.splits dest: str_reactions_error)

lemma setReactionDic_Some:
  assumes "map_of (setReactionDic rs dic) k = Some r"
  shows "(r \<in> set rs \<and> reaction_id r = k) \<or> map_of dic k = Some r"
  using assms
proof (induction rs arbitrary: dic)
  case Nil
  then show ?case by simp
next
  case (Cons x rs)
  from Cons.IH [OF Cons.prems [simplified]]
  show ?case by (auto simp: update_conv' split: if_splits)
qed

lemma participants_takes_part:
  assumes "\<not> takes_part r species"
  shows "\<not> list_ex (\<lambda>p. p_species p = species) (participants r key)"
  using assms by (cases key) (auto simp: takes_part_def list_ex_iff)

lemma getData_empty:
  assumes "map_of (reactionDic reg) reaction = Some r" "typeDic reg species = Some key"
    "\<not> list_ex (\<lambda>p. p_species p = species) (participants r key)"
  shows "getData reg reaction species = Inr ([], [])"
  using assms by (simp add: getData_def getData_reactants_none np_array2_def)

lemma absent_pair_not_listed:
  assumes "\<not> spec_pair_present doc reaction species" "init empty_registry doc = Inr reg"
    "map_of (reactionDic reg) reaction = Some r"
  shows "\<not> takes_part r species"
proof -
  from assms(3) have "map_of (setReactionDic (doc_reaction doc) []) reaction = Some r"
    by (simp add: init_Inr(1) [OF assms(2)])
  from setReactionDic_Some [OF this]
  have "r \<in> set (doc_reaction doc)" "reaction_id r = reaction" by simp_all
  with assms(1) show ?thesis by (auto simp: spec_pair_present_def list_ex_iff)
qed

text \<open>
  The claim C6 as stated, that \<open>getData\<close> fails whenever the reaction/species pair is
  absent from the document, is false: in the example document the species \<open>s2\<close> takes
  part in the reaction \<open>r1\<close> only, and the query for \<open>(r0, s2)\<close> returns a pair of
  empty arrays.
\<close>

theorem getData_absent_pair_counterexample:
  "\<not> spec_pair_present example_doc ''r0'' ''s2'' \<and>
   fresh_getData example_doc ''r0'' ''s2'' = Inr ([], [])"
  by code_simp

text \<open>
  C6, amended: for a document loaded into the freshly imported class and a
  reaction/species pair absent from it, \<open>getData\<close> fails with KeyError (the error of
  a missing key; the code has no NotFoundError) when the reaction id is not the id of a
  reaction of the document, and when the species takes part in no reaction of the
  document; when the reaction is registered and the species has a registered role, it
  returns a pair of empty arrays. An absent pair has no other outcome than these two.
\<close>

theorem getData_absent_pair:
  "(reaction \<notin> reaction_id ` set (doc_reaction doc) \<longrightarrow>
      fresh_getData doc reaction species = Inl KeyError) \<and>
   (\<not> spec_species_present doc species \<longrightarrow>
      fresh_getData doc reaction species = Inl KeyError) \<and>
   (\<not> spec_pair_present doc reaction species \<longrightarrow>
      fresh_getData doc reaction species = Inl KeyError \<or>
      fresh_getData doc reaction species = Inr ([], [])) \<and>
   (\<forall>reg. \<not> spec_pair_present doc reaction species \<and> init empty_registry doc = Inr reg \<and>
      map_of (reactionDic reg) reaction \<noteq> None \<and> typeDic reg species \<noteq> None \<longrightarrow>
      fresh_getData doc reaction species = Inr ([], []))"
proof -
  have f: "fresh_getData doc reaction species = Inl KeyError"
    if "init empty_registry doc = Inl e" for e
    using that init_error [OF that] by (simp add: fresh_getData_def)
  have a: "fresh_getData doc reaction species = Inl KeyError"
    if "reaction \<notin> reaction_id ` set (doc_reaction doc)"
  proof (cases "init empty_registry doc")
    case (Inl e)
    then show ?thesis by (rule f)
  next
    case (Inr reg)
    have "map_of (reactionDic reg) reaction = None"
      unfolding init_Inr(1) [OF Inr] using that by (intro setReactionDic_None) simp_all
    then show ?thesis by (simp add: fresh_getData_def Inr getData_def)
  qed
  have b: "fresh_getData doc reaction species = Inl KeyError"
    if "\<not> spec_species_present doc species"
  proof (cases "init empty_registry doc")
    case (Inl e)
    then show ?thesis by (rule f)
  next
    case (Inr reg)
    have "typeDic reg species = None"
      using init_Inr(2) [OF Inr] that by auto
    then show ?thesis by (simp add: fresh_getData_def Inr getData_def split: option.splits)
  qed
  have d: "fresh_getData doc reaction species = Inr ([], [])"
    if "\<not> spec_pair_present doc reaction species" "init empty_registry doc = Inr reg"
      "map_of (reactionDic reg) reaction \<noteq> None" "typeDic reg species \<noteq> None" for reg
  proof -
    from that(3,4) obtain r key where r: "map_of (reactionDic reg) reaction = Some r"
      and k: "typeDic reg species = Some key" by auto
    from absent_pair_not_listed [OF that(1,2) r]
    have "\<not> list_ex (\<lambda>p. p_species p = species) (participants r key)"
      by (rule participants_takes_part)
    from getData_empty [OF r k this] show ?thesis by (simp add: fresh_getData_def that(2))
  qed
  have c: "fresh_getData doc reaction species = Inl KeyError \<or>
      fresh_getData doc reaction species = Inr ([], [])"
    if "\<not> spec_pair_present doc reaction species"
  proof (cases "init empty_registry doc")
    case (Inl e)
    then show ?thesis using f by blast
  next
    case (Inr reg)
    show ?thesis
    proof (cases "map_of (reactionDic reg) reaction \<noteq> None \<and> typeDic reg species \<noteq> None")
      case True
      with d [OF that Inr] show ?thesis by blast
    next
      case False
      then have "getData reg reaction species = Inl KeyError"
        by (auto simp: getData_def split: option.splits)
      then show ?thesis by (simp add: fresh_getData_def Inr)
    qed
  qed
  from a b c d show ?thesis by blast
qed

theorem getData_absent_pair_witness:
  "''r9'' \<notin> reaction_id ` set (doc_reaction example_doc) \<and>
   fresh_getData example_doc ''r9'' ''s0'' = Inl KeyError \<and>
   \<not> spec_species_present example_doc ''s9'' \<and>
   fresh_getData example_doc ''r0'' ''s9'' = Inl KeyError \<and>
   \<not> spec_pair_present example_doc ''r0'' ''s2'' \<and>
   (\<exists>reg. init empty_registry example_doc = Inr reg \<and>
      map_of (reactionDic reg) ''r0'' \<noteq> None \<and> typeDic reg ''s2'' \<noteq> None) \<and>
   fresh_getData example_doc ''r0'' ''s2'' = Inr ([], [])"
proof -
  have h1: "''r9'' \<notin> reaction_id ` set (doc_reaction example_doc)"
    by (simp add: example_doc_def example_r0_def example_r1_def)
  have h2: "\<not> spec_species_present example_doc ''s9''"
    by (simp add: spec_species_present_def takes_part_def example_doc_def example_r0_def
        example_r1_def)
  have h0: "\<not> spec_pair_present example_doc ''r0'' ''s2''"
    by (simp add: spec_pair_present_def takes_part_def example_doc_def example_r0_def
        example_r1_def)
  define reg where "reg =
     \<lparr>protDic = setProteinDic (doc_protein example_doc) Map.empty,
      reactantDic = setReactantDic (doc_reactant example_doc) Map.empty,
      reactionDic = setReactionDic (doc_reaction example_doc) [],
      typeDic = [''s0'' \<mapsto> Educts, ''s1'' \<mapsto> Products, ''s2'' \<mapsto> Educts,
                 ''s3'' \<mapsto> Products]\<rparr>"
  have h3: "init empty_registry example_doc = Inr reg"
    by (simp add: init_def empty_registry_def reg_def example_doc_def example_r0_def
        example_r1_def)
  have h4: "map_of (reactionDic reg) ''r0'' \<noteq> None"
    by (simp add: reg_def example_doc_def example_r0_def example_r1_def)
  have h5: "typeDic reg ''s2'' \<noteq> None" by (simp add: reg_def)
  from getData_absent_pair [of "''r9''" example_doc "''s0''"] h1
  have a: "fresh_getData example_doc ''r9'' ''s0'' = Inl KeyError" by blast
  from getData_absent_pair [of "''r0''" example_doc "''s9''"] h2
  have b: "fresh_getData example_doc ''r0'' ''s9'' = Inl KeyError" by blast
  from getData_absent_pair [of "''r0''" example_doc "''s2''"] h0 h3 h4 h5
  have c: "fresh_getData example_doc ''r0'' ''s2'' = Inr ([], [])" by blast
  from h0 h1 h2 h3 h4 h5 a b c show ?thesis by blast
qed

end
